theory Spec2Isabelle
  imports Complex_Main "HOL-Library.Log_Nat"
begin

section \<open>JavaScript numbers\<close>

text \<open>
  The converters of \<^verbatim>\<open>unit-converter.js\<close> compute on JavaScript Numbers, the doubles
  of IEEE 754 (binary64). A Number is one of the three special values or a finite
  value, carried as the real it denotes. Every arithmetic operation and every
  decimal that is read rounds its exact result to the nearest double, a tie to the
  one with the even significand, and overflows to an infinity (\<open>fl\<close> below), so
  that what an operation or a converter returns is a double. What is stated of
  \<open>Fin v\<close> for every real \<open>v\<close> holds of every double \<open>v\<close>.
  The two zeros of IEEE arithmetic are one value \<open>Fin 0\<close>, as they are for the
  operator \<^verbatim>\<open>===\<close>. The program cannot tell them apart: it never divides by a zero
  (every divisor is an entry of the factor table or \<^verbatim>\<open>undefined\<close>), both are falsy,
  \<^verbatim>\<open>toFixed\<close> prints both alike, and \<^verbatim>\<open>formatNumber\<close> tests \<^verbatim>\<open>num === 0\<close> before it
  prints. A division by \<open>Fin 0\<close> is that by the positive zero.
\<close>

datatype jsnum = NaN | Infinity | MinusInfinity | Fin real

definition signed_infinity :: "real \<Rightarrow> jsnum" where
  "signed_infinity s = (if s < 0 then MinusInfinity else Infinity)"

fun sign_of :: "jsnum \<Rightarrow> real" where
  "sign_of NaN = 0"
| "sign_of Infinity = 1"
| "sign_of MinusInfinity = - 1"
| "sign_of (Fin r) = sgn r"

text \<open>
  Rounding to binary64. For \<open>2^e \<le> |x| < 2^(e+1)\<close> the doubles around \<open>x\<close> are the
  multiples of \<open>2^(e-52)\<close>; below \<open>2^-1022\<close> the spacing stays \<open>2^-1074\<close> (subnormal
  numbers). The multiple nearest to \<open>x\<close> is taken, of two equally near ones the even
  one, and a result of magnitude \<open>2^1024\<close> or more is an infinity.
\<close>

definition floor_log2 :: "real \<Rightarrow> int" where
  "floor_log2 a =
     (if 1 \<le> a then int (floorlog 2 (nat \<lfloor>a\<rfloor>)) - 1
      else - int (floorlog 2 (nat \<lceil>1 / a\<rceil> - 1)))"

definition round_even :: "real \<Rightarrow> int" where
  "round_even x =
     (let n = \<lfloor>x\<rfloor>; d = x - real_of_int n
      in if d < 1 / 2 then n else if 1 / 2 < d then n + 1 else if even n then n else n + 1)"

definition fl :: "real \<Rightarrow> jsnum" where
  "fl x =
     (let e = max (floor_log2 \<bar>x\<bar>) (- 1022);
          u = 2 powi (e - 52);
          y = real_of_int (round_even (x / u)) * u
      in if 2 ^ 1024 \<le> \<bar>y\<bar> then signed_infinity x else Fin y)"

text \<open>The Number that a decimal literal of the source denotes, and the reals that are
  doubles: those that the rounding leaves as they are.\<close>

definition literal :: "real \<Rightarrow> jsnum" where
  "literal x = fl x"

definition double :: "real \<Rightarrow> bool" where
  "double r = (fl r = Fin r)"

instantiation jsnum :: "{plus, uminus, minus, times, inverse, ord}"
begin

fun uminus_jsnum :: "jsnum \<Rightarrow> jsnum" where
  "uminus_jsnum NaN = NaN"
| "uminus_jsnum Infinity = MinusInfinity"
| "uminus_jsnum MinusInfinity = Infinity"
| "uminus_jsnum (Fin r) = Fin (- r)"

fun plus_jsnum :: "jsnum \<Rightarrow> jsnum \<Rightarrow> jsnum" where
  "plus_jsnum (Fin a) (Fin b) = fl (a + b)"
| "plus_jsnum NaN y = NaN"
| "plus_jsnum x NaN = NaN"
| "plus_jsnum Infinity MinusInfinity = NaN"
| "plus_jsnum MinusInfinity Infinity = NaN"
| "plus_jsnum (Fin a) y = y"
| "plus_jsnum x y = x"

definition minus_jsnum :: "jsnum \<Rightarrow> jsnum \<Rightarrow> jsnum" where
  "minus_jsnum x y = x + (- y)"

fun times_jsnum :: "jsnum \<Rightarrow> jsnum \<Rightarrow> jsnum" where
  "times_jsnum (Fin a) (Fin b) = fl (a * b)"
| "times_jsnum NaN y = NaN"
| "times_jsnum x NaN = NaN"
| "times_jsnum x y =
     (if sign_of x * sign_of y = 0 then NaN else signed_infinity (sign_of x * sign_of y))"

fun divide_jsnum :: "jsnum \<Rightarrow> jsnum \<Rightarrow> jsnum" where
  "divide_jsnum (Fin a) (Fin b) =
     (if b = 0 then (if a = 0 then NaN else signed_infinity a) else fl (a / b))"
| "divide_jsnum NaN y = NaN"
| "divide_jsnum x NaN = NaN"
| "divide_jsnum (Fin a) y = Fin 0"
| "divide_jsnum x (Fin b) = signed_infinity (if b < 0 then - sign_of x else sign_of x)"
| "divide_jsnum x y = NaN"

definition inverse_jsnum :: "jsnum \<Rightarrow> jsnum" where
  "inverse_jsnum x = divide (Fin 1) x"

fun less_jsnum :: "jsnum \<Rightarrow> jsnum \<Rightarrow> bool" where
  "less_jsnum NaN y = False"
| "less_jsnum x NaN = False"
| "less_jsnum (Fin a) (Fin b) = (a < b)"
| "less_jsnum x Infinity = (x \<noteq> Infinity)"
| "less_jsnum MinusInfinity y = (y \<noteq> MinusInfinity)"
| "less_jsnum x y = False"

fun less_eq_jsnum :: "jsnum \<Rightarrow> jsnum \<Rightarrow> bool" where
  "less_eq_jsnum NaN y = False"
| "less_eq_jsnum x NaN = False"
| "less_eq_jsnum (Fin a) (Fin b) = (a \<le> b)"
| "less_eq_jsnum x Infinity = True"
| "less_eq_jsnum MinusInfinity y = True"
| "less_eq_jsnum x y = False"

instance ..

end

text \<open>\<^verbatim>\<open>Math.abs\<close> of a Number.\<close>

fun Math_abs :: "jsnum \<Rightarrow> jsnum" where
  "Math_abs NaN = NaN"
| "Math_abs Infinity = Infinity"
| "Math_abs MinusInfinity = Infinity"
| "Math_abs (Fin r) = Fin \<bar>r\<bar>"

text \<open>
  The values that reach the converters: a Number, which is what the parameter
  \<^verbatim>\<open>value\<close> is documented to be and what the event handlers of the file pass
  (\<^verbatim>\<open>parseFloat(input.value) || 0\<close>), or \<^verbatim>\<open>undefined\<close>, which is what a parameter holds
  when the argument is absent and what a table yields for a key it does not have.
  An arithmetic operator and \<^verbatim>\<open>isNaN\<close> convert their operand to a Number first,
  \<^verbatim>\<open>undefined\<close> to \<^verbatim>\<open>NaN\<close>; \<^verbatim>\<open>!value\<close> negates the truth value, and \<^verbatim>\<open>undefined\<close>, the
  zeros and \<^verbatim>\<open>NaN\<close> are the falsy ones.
\<close>

datatype jsval = Undefined | Number jsnum

fun ToNumber :: "jsval \<Rightarrow> jsnum" where
  "ToNumber Undefined = NaN"
| "ToNumber (Number x) = x"

definition isNaN :: "jsval \<Rightarrow> bool" where
  "isNaN v = (ToNumber v = NaN)"

definition falsy :: "jsval \<Rightarrow> bool" where
  "falsy v = (case v of Undefined \<Rightarrow> True | Number x \<Rightarrow> x = Fin 0 \<or> x = NaN)"

section \<open>Decimal strings: \<^verbatim>\<open>toFixed\<close> and \<^verbatim>\<open>parseFloat\<close>\<close>

definition digit_char :: "nat \<Rightarrow> char" where
  "digit_char d = char_of (48 + d)"

definition is_digit :: "char \<Rightarrow> bool" where
  "is_digit c = (48 \<le> (of_char c :: nat) \<and> (of_char c :: nat) \<le> 57)"

definition digit_val :: "char \<Rightarrow> nat" where
  "digit_val c = of_char c - 48"

text \<open>The decimal digits of a natural number, most significant first; \<open>0\<close> is \<^verbatim>\<open>"0"\<close>.\<close>

fun digits :: "nat \<Rightarrow> string" where
  "digits n = (if n < 10 then [digit_char n] else digits (n div 10) @ [digit_char (n mod 10)])"

declare digits.simps [simp del]

definition nat_of_digits :: "string \<Rightarrow> nat" where
  "nat_of_digits s = foldl (\<lambda>a c. 10 * a + digit_val c) 0 s"

definition zero_pad :: "nat \<Rightarrow> string \<Rightarrow> string" where
  "zero_pad w m = replicate (w - length m) (CHR ''0'') @ m"

text \<open>A real rounded to \<open>f\<close> decimal places, a tie away from zero, and a Number rounded
  to \<open>f\<close> decimal places: the double nearest to the rounded decimal.\<close>

definition round_dp :: "nat \<Rightarrow> real \<Rightarrow> real" where
  "round_dp f r =
     (if r < 0 then - 1 else 1) * real_of_int \<lfloor>\<bar>r\<bar> * 10 ^ f + 1 / 2\<rfloor> / 10 ^ f"

definition rounded :: "nat \<Rightarrow> jsnum \<Rightarrow> jsnum" where
  "rounded f x = (case x of Fin r \<Rightarrow> fl (round_dp f r) | _ \<Rightarrow> x)"

text \<open>
  \<^verbatim>\<open>Number.prototype.toFixed(f)\<close> (ECMAScript 21.1.3.3). A non-finite number prints as
  its name. Otherwise the sign is split off and \<open>n\<close> is the integer for which
  \<open>n / 10^f\<close> is closest to the exact absolute value of the double, the larger one of
  two; its digits are
  padded with zeros on the left to \<open>f + 1\<close> characters and the point goes before the
  last \<open>f\<close>. From \<open>10^21\<close> on ECMAScript prints the shortest digits that identify the
  double, in exponent notation from which \<^verbatim>\<open>parseFloat\<close> reads the same double back,
  and a double that large is an integer; the model prints the positional digits
  throughout, which denote the same value.
\<close>

definition toFixed :: "nat \<Rightarrow> jsnum \<Rightarrow> string" where
  "toFixed f x =
     (case x of
        NaN \<Rightarrow> ''NaN''
      | Infinity \<Rightarrow> ''Infinity''
      | MinusInfinity \<Rightarrow> ''-Infinity''
      | Fin r \<Rightarrow>
          (let s = (if r < 0 then ''-'' else '''');
               n = nat \<lfloor>\<bar>r\<bar> * 10 ^ f + 1 / 2\<rfloor>;
               m = digits n
           in if f \<noteq> 0
              then (let z = zero_pad (f + 1) m;
                        k = length z
                    in s @ take (k - f) z @ ''.'' @ drop (k - f) z)
              else s @ m))"

text \<open>
  \<^verbatim>\<open>parseFloat\<close> (ECMAScript 19.2.4): leading white space is skipped, then the longest
  prefix that is a decimal literal is read: an optional sign, then \<^verbatim>\<open>Infinity\<close>, or
  digits with an optional fraction and an optional exponent; the result is the double
  nearest to the decimal that was read. Without such a prefix the result is \<^verbatim>\<open>NaN\<close>.
  Strings are byte strings here, so only the ASCII white space characters are skipped.
\<close>

definition is_space :: "char \<Rightarrow> bool" where
  "is_space c = ((of_char c :: nat) \<in> {9, 10, 11, 12, 13, 32})"

text \<open>The exponent part \<^verbatim>\<open>e\<close>, \<^verbatim>\<open>E\<close> with an optional sign and at least one digit; a
  string that does not start with one has exponent \<open>0\<close>.\<close>

definition exponent_part :: "string \<Rightarrow> int" where
  "exponent_part s =
     (case s of
        [] \<Rightarrow> 0
      | c # t \<Rightarrow>
          if c = CHR ''e'' \<or> c = CHR ''E''
          then (case t of
                  [] \<Rightarrow> 0
                | d # u \<Rightarrow>
                    if d = CHR ''-'' then - int (nat_of_digits (takeWhile is_digit u))
                    else if d = CHR ''+'' then int (nat_of_digits (takeWhile is_digit u))
                    else int (nat_of_digits (takeWhile is_digit t)))
          else 0)"

definition scale10 :: "real \<Rightarrow> int \<Rightarrow> real" where
  "scale10 x e = (if 0 \<le> e then x * 10 ^ nat e else x / 10 ^ nat (- e))"

text \<open>The literal after the sign: integer digits \<open>ip\<close>, fraction digits \<open>fp\<close> after
  a point, and the exponent read from what follows.\<close>

definition unsigned_literal :: "string \<Rightarrow> jsnum" where
  "unsigned_literal u =
     (if take 8 u = ''Infinity'' then Infinity
      else
        (let ip = takeWhile is_digit u;
             r1 = dropWhile is_digit u;
             dot = (r1 \<noteq> [] \<and> hd r1 = CHR ''.'');
             fp = (if dot then takeWhile is_digit (tl r1) else []);
             r2 = (if dot then dropWhile is_digit (tl r1) else r1)
         in if ip = [] \<and> fp = [] then NaN
            else fl (scale10 (real (nat_of_digits (ip @ fp)) / 10 ^ length fp)
                       (exponent_part r2))))"

definition parseFloat :: "string \<Rightarrow> jsnum" where
  "parseFloat str =
     (case dropWhile is_space str of
        [] \<Rightarrow> NaN
      | c # t \<Rightarrow>
          if c = CHR ''-'' then - unsigned_literal t
          else if c = CHR ''+'' then unsigned_literal t
          else unsigned_literal (c # t))"

section \<open>The factor registry\<close>

text \<open>
  \<^verbatim>\<open>conversionFactors\<close> is an object of six tables, each an object literal from unit
  symbol to factor; a table is the association list of its literal. The field for
  \<^verbatim>\<open>length\<close> carries a suffix to keep it apart from the length of a list. The
  converters read the global constant; here they take the registry as an argument.
\<close>

type_synonym table = "(string \<times> real) list"

record registry =
  length_factors :: table
  weight :: table
  volume :: table
  speed :: table
  area :: table
  pressure :: table

definition conversionFactors :: registry where
  "conversionFactors =
     \<lparr> length_factors =
         [(''mm'', 0.001), (''cm'', 0.01), (''m'', 1), (''km'', 1000), (''inch'', 0.0254),
          (''foot'', 0.3048), (''yard'', 0.9144), (''mile'', 1609.344)],
       weight =
         [(''mg'', 0.000001), (''g'', 0.001), (''kg'', 1), (''oz'', 0.0283495),
          (''lb'', 0.453592), (''ton'', 1000)],
       volume =
         [(''ml'', 0.001), (''liter'', 1), (''gallon'', 3.78541), (''quart'', 0.946353),
          (''pint'', 0.473176), (''cup'', 0.236588), (''fl_oz'', 0.0295735),
          (''tbsp'', 0.0147868), (''tsp'', 0.00492892)],
       speed =
         [(''ms'', 1), (''kmh'', 3.6), (''mph'', 2.23694), (''knots'', 1.94384)],
       area =
         [(''mm2'', 0.000001), (''cm2'', 0.0001), (''m2'', 1), (''km2'', 1000000),
          (''acre'', 4046.86), (''hectare'', 10000)],
       pressure =
         [(''pa'', 1), (''bar'', 100000), (''atm'', 101325), (''psi'', 6894.76)] \<rparr>"

text \<open>
  \<^verbatim>\<open>table[unit]\<close> is the factor stored under the symbol, the double of its literal, or
  \<^verbatim>\<open>undefined\<close> when the table has no such key. (A key that the table inherits from
  \<^verbatim>\<open>Object.prototype\<close>, such as \<^verbatim>\<open>constructor\<close>, yields a function or an object, and
  these convert to \<^verbatim>\<open>NaN\<close> as \<^verbatim>\<open>undefined\<close> does.)
\<close>

definition lookup :: "table \<Rightarrow> string \<Rightarrow> jsval" where
  "lookup tbl key = (case map_of tbl key of None \<Rightarrow> Undefined | Some f \<Rightarrow> Number (literal f))"

section \<open>The conversion functions\<close>

text \<open>
  Each function is the source function of the same name, statement by statement. None
  of them has a \<^verbatim>\<open>throw\<close>, and on a Number or absent argument no operation in them can
  raise, so a call always returns a Number to its caller. Past its guard the value is
  a Number, which \<open>ToNumber\<close> leaves as it is. The integer literals are doubles
  themselves.
\<close>

definition convertLength :: "registry \<Rightarrow> jsval \<Rightarrow> string \<Rightarrow> string \<Rightarrow> jsnum" where
  "convertLength cf value fromUnit toUnit =
     (if falsy value \<or> isNaN value then Fin 0
      else
        (let valueInMeters = ToNumber value * ToNumber (lookup (length_factors cf) fromUnit);
             result = valueInMeters / ToNumber (lookup (length_factors cf) toUnit)
         in parseFloat (toFixed 10 result)))"

definition convertWeight :: "registry \<Rightarrow> jsval \<Rightarrow> string \<Rightarrow> string \<Rightarrow> jsnum" where
  "convertWeight cf value fromUnit toUnit =
     (if falsy value \<or> isNaN value then Fin 0
      else
        (let valueInKg = ToNumber value * ToNumber (lookup (weight cf) fromUnit);
             result = valueInKg / ToNumber (lookup (weight cf) toUnit)
         in parseFloat (toFixed 10 result)))"

definition convertVolume :: "registry \<Rightarrow> jsval \<Rightarrow> string \<Rightarrow> string \<Rightarrow> jsnum" where
  "convertVolume cf value fromUnit toUnit =
     (if falsy value \<or> isNaN value then Fin 0
      else
        (let valueInLiters = ToNumber value * ToNumber (lookup (volume cf) fromUnit);
             result = valueInLiters / ToNumber (lookup (volume cf) toUnit)
         in parseFloat (toFixed 10 result)))"

definition convertSpeed :: "registry \<Rightarrow> jsval \<Rightarrow> string \<Rightarrow> string \<Rightarrow> jsnum" where
  "convertSpeed cf value fromUnit toUnit =
     (if falsy value \<or> isNaN value then Fin 0
      else
        (let valueInMs = ToNumber value / ToNumber (lookup (speed cf) fromUnit);
             result = valueInMs * ToNumber (lookup (speed cf) toUnit)
         in parseFloat (toFixed 10 result)))"

definition convertArea :: "registry \<Rightarrow> jsval \<Rightarrow> string \<Rightarrow> string \<Rightarrow> jsnum" where
  "convertArea cf value fromUnit toUnit =
     (if falsy value \<or> isNaN value then Fin 0
      else
        (let valueInM2 = ToNumber value * ToNumber (lookup (area cf) fromUnit);
             result = valueInM2 / ToNumber (lookup (area cf) toUnit)
         in parseFloat (toFixed 10 result)))"

definition convertPressure :: "registry \<Rightarrow> jsval \<Rightarrow> string \<Rightarrow> string \<Rightarrow> jsnum" where
  "convertPressure cf value fromUnit toUnit =
     (if falsy value \<or> isNaN value then Fin 0
      else
        (let valueInPa = ToNumber value * ToNumber (lookup (pressure cf) fromUnit);
             result = valueInPa / ToNumber (lookup (pressure cf) toUnit)
         in parseFloat (toFixed 10 result)))"

definition convertTemperature :: "jsval \<Rightarrow> string \<Rightarrow> string \<Rightarrow> jsnum" where
  "convertTemperature value fromUnit toUnit =
     (if isNaN value then Fin 0
      else
        (let celsius =
               (if fromUnit = ''celsius'' then ToNumber value
                else if fromUnit = ''fahrenheit''
                then (ToNumber value - Fin 32) * (Fin 5 / Fin 9)
                else if fromUnit = ''kelvin'' then ToNumber value - literal 273.15
                else ToNumber value);
             result =
               (if toUnit = ''celsius'' then celsius
                else if toUnit = ''fahrenheit'' then celsius * (Fin 9 / Fin 5) + Fin 32
                else if toUnit = ''kelvin'' then celsius + literal 273.15
                else celsius)
         in parseFloat (toFixed 4 result)))"

text \<open>
  The seven entry points under one name, \<open>convert(domain, value, fromUnit, toUnit)\<close>,
  and the table each domain reads (temperature reads none).
\<close>

datatype domain = Length | Weight | Volume | Speed | Area | Pressure | Temperature

fun table_of :: "registry \<Rightarrow> domain \<Rightarrow> table" where
  "table_of cf Length = length_factors cf"
| "table_of cf Weight = weight cf"
| "table_of cf Volume = volume cf"
| "table_of cf Speed = speed cf"
| "table_of cf Area = area cf"
| "table_of cf Pressure = pressure cf"
| "table_of cf Temperature = []"

fun convert :: "registry \<Rightarrow> domain \<Rightarrow> jsval \<Rightarrow> string \<Rightarrow> string \<Rightarrow> jsnum" where
  "convert cf Length = convertLength cf"
| "convert cf Weight = convertWeight cf"
| "convert cf Volume = convertVolume cf"
| "convert cf Speed = convertSpeed cf"
| "convert cf Area = convertArea cf"
| "convert cf Pressure = convertPressure cf"
| "convert cf Temperature = convertTemperature"

section \<open>Formatting the result\<close>

text \<open>
  \<^verbatim>\<open>Number.prototype.toExponential(f)\<close> (ECMAScript 21.1.3.2). A non-finite number
  prints as its name. Otherwise the sign is split off; for a nonzero absolute value
  \<open>a\<close> the exponent \<open>e\<close> and the integer \<open>n\<close> with \<open>10^f \<le> n < 10^(f+1)\<close> are those for
  which \<open>n * 10^(e-f)\<close> is closest to \<open>a\<close>, the larger value of two. With
  \<open>10^e \<le> a < 10^(e+1)\<close> that is the rounding of \<open>a / 10^(e-f)\<close>, carried into the next
  exponent when it reaches \<open>10^(f+1)\<close>.
\<close>

definition floor_log10 :: "real \<Rightarrow> int" where
  "floor_log10 a =
     (if 1 \<le> a then int (length (digits (nat \<lfloor>a\<rfloor>))) - 1
      else - int (length (digits (nat \<lceil>1 / a\<rceil> - 1))))"

definition exponent_and_digits :: "nat \<Rightarrow> real \<Rightarrow> int \<times> nat" where
  "exponent_and_digits f a =
     (let e = floor_log10 a;
          n = nat \<lfloor>scale10 a (int f - e) + 1 / 2\<rfloor>
      in if n = 10 ^ (f + 1) then (e + 1, 10 ^ f) else (e, n))"

definition toExponential :: "nat \<Rightarrow> jsnum \<Rightarrow> string" where
  "toExponential f x =
     (case x of
        NaN \<Rightarrow> ''NaN''
      | Infinity \<Rightarrow> ''Infinity''
      | MinusInfinity \<Rightarrow> ''-Infinity''
      | Fin r \<Rightarrow>
          (let s = (if r < 0 then ''-'' else []);
               en = (if r = 0 then (0, 0) else exponent_and_digits f \<bar>r\<bar>);
               e = fst en;
               m = (if r = 0 then replicate (f + 1) (CHR ''0'') else digits (snd en));
               m' = (if f \<noteq> 0 then take 1 m @ ''.'' @ drop 1 m else m);
               c = (if e < 0 then ''-'' else ''+'');
               d = digits (nat \<bar>e\<bar>)
           in s @ m' @ ''e'' @ c @ d))"

text \<open>
  \<^verbatim>\<open>toLocaleString('en-US', {maximumFractionDigits, minimumFractionDigits})\<close>: the
  absolute value is rounded to the maximal number of fraction digits, half away
  from zero; the integer digits are grouped in threes by commas; zeros at the end of
  the fraction are dropped as long as more than the minimal number of digits remain,
  and the point is printed only before a fraction that is not empty. An infinity
  prints as the sign U+221E, three bytes in UTF-8.
\<close>

fun group_rev :: "string \<Rightarrow> string" where
  "group_rev (a # b # c # d # rest) = a # b # c # CHR '','' # group_rev (d # rest)"
| "group_rev xs = xs"

definition group_thousands :: "string \<Rightarrow> string" where
  "group_thousands s = rev (group_rev (rev s))"

definition trim_zeros :: "nat \<Rightarrow> string \<Rightarrow> string" where
  "trim_zeros mn fp =
     (let t = rev (dropWhile (\<lambda>c. c = CHR ''0'') (rev fp))
      in if length t < mn then take mn fp else t)"

definition toLocaleString :: "nat \<Rightarrow> nat \<Rightarrow> jsnum \<Rightarrow> string" where
  "toLocaleString maximumFractionDigits minimumFractionDigits x =
     (case x of
        NaN \<Rightarrow> ''NaN''
      | Infinity \<Rightarrow> [CHR 0xE2, CHR 0x88, CHR 0x9E]
      | MinusInfinity \<Rightarrow> [CHR ''-'', CHR 0xE2, CHR 0x88, CHR 0x9E]
      | Fin r \<Rightarrow>
          (let s = (if r < 0 then ''-'' else []);
               n = nat \<lfloor>\<bar>r\<bar> * 10 ^ maximumFractionDigits + 1 / 2\<rfloor>;
               ip = digits (n div 10 ^ maximumFractionDigits);
               fp = trim_zeros minimumFractionDigits
                      (if maximumFractionDigits = 0 then []
                       else zero_pad maximumFractionDigits
                              (digits (n mod 10 ^ maximumFractionDigits)))
           in s @ group_thousands ip @ (if fp = [] then [] else ''.'' @ fp)))"

text \<open>
  \<^verbatim>\<open>formatNumber\<close> does no arithmetic. Its two thresholds are compared as the decimals
  they are written as: the double of \<^verbatim>\<open>0.0001\<close> lies above 0.0001 with no double in
  between and 1000000 is a double, so that on a double the tests come out the same.
\<close>

definition formatNumber :: "jsnum \<Rightarrow> string" where
  "formatNumber num =
     (if num = Fin 0 then ''0''
      else if Math_abs num < Fin 0.0001 \<or> Math_abs num > Fin 1000000
      then toExponential 6 num
      else toLocaleString 6 0 num)"

section \<open>Notions used to state the properties\<close>

text \<open>Exponential notation with \<open>f\<close> digits after the point of the mantissa: an optional
  minus sign, one nonzero digit, the point, \<open>f\<close> digits, \<^verbatim>\<open>e\<close>, a sign and the digits of
  the exponent.\<close>

definition strip_minus :: "string \<Rightarrow> string" where
  "strip_minus s = (case s of [] \<Rightarrow> [] | c # t \<Rightarrow> if c = CHR ''-'' then t else s)"

definition exponential_notation :: "nat \<Rightarrow> string \<Rightarrow> bool" where
  "exponential_notation f s =
     (let u = strip_minus s;
          m = takeWhile (\<lambda>c. c \<noteq> CHR ''e'') u;
          x = dropWhile (\<lambda>c. c \<noteq> CHR ''e'') u
      in (case m of
            d # p # fr \<Rightarrow>
              is_digit d \<and> d \<noteq> CHR ''0'' \<and> p = CHR ''.'' \<and> length fr = f \<and> list_all is_digit fr
          | _ \<Rightarrow> False) \<and>
         (case x of
            e # c # ds \<Rightarrow> (c = CHR ''+'' \<or> c = CHR ''-'') \<and> ds \<noteq> [] \<and> list_all is_digit ds
          | _ \<Rightarrow> False))"

text \<open>Fixed notation with thousands grouping and at most \<open>mx\<close> fraction digits, none of
  them padding: an optional minus sign; integer digits in groups of three separated
  by commas, the leftmost group of one to three; then nothing, or the point and one
  to \<open>mx\<close> digits the last of which is not \<^verbatim>\<open>0\<close>.\<close>

fun grouped_rev :: "string \<Rightarrow> bool" where
  "grouped_rev (a # b # c # d # rest) =
     (is_digit a \<and> is_digit b \<and> is_digit c \<and> d = CHR '','' \<and> grouped_rev rest)"
| "grouped_rev xs = (xs \<noteq> [] \<and> list_all is_digit xs)"

definition fixed_notation :: "nat \<Rightarrow> string \<Rightarrow> bool" where
  "fixed_notation mx s =
     (let u = strip_minus s;
          ip = takeWhile (\<lambda>c. c \<noteq> CHR ''.'') u;
          r = dropWhile (\<lambda>c. c \<noteq> CHR ''.'') u
      in grouped_rev (rev ip) \<and>
         (r = [] \<or>
          (tl r \<noteq> [] \<and> length (tl r) \<le> mx \<and> list_all is_digit (tl r) \<and>
           last (tl r) \<noteq> CHR ''0'')))"

text \<open>A conversion from \<open>A\<close> to \<open>B\<close> and of its result back, and the test that a Number
  is finite and within a tolerance of a real.\<close>

definition round_trip :: "registry \<Rightarrow> domain \<Rightarrow> jsval \<Rightarrow> string \<Rightarrow> string \<Rightarrow> jsnum" where
  "round_trip cf d v A B = convert cf d (Number (convert cf d v A B)) B A"

fun within_tol :: "real \<Rightarrow> jsnum \<Rightarrow> real \<Rightarrow> bool" where
  "within_tol tol (Fin y) v = (\<bar>y - v\<bar> \<le> tol)"
| "within_tol tol x v = False"

text \<open>The two hops of the temperature conversion, into the Celsius pivot and out of
  it, with the arithmetic of the source; every symbol other than the three is the
  identity.\<close>

definition to_celsius :: "string \<Rightarrow> jsnum \<Rightarrow> jsnum" where
  "to_celsius u v =
     (if u = ''fahrenheit'' then (v - Fin 32) * (Fin 5 / Fin 9)
      else if u = ''kelvin'' then v - literal 273.15
      else v)"

definition from_celsius :: "string \<Rightarrow> jsnum \<Rightarrow> jsnum" where
  "from_celsius u c =
     (if u = ''fahrenheit'' then c * (Fin 9 / Fin 5) + Fin 32
      else if u = ''kelvin'' then c + literal 273.15
      else c)"

text \<open>The converter of the design note that sanitizes only \<^verbatim>\<open>NaN\<close>: the steps of the
  six linear converters without the test \<^verbatim>\<open>!value\<close>.\<close>

definition convert_NaN_only ::
  "registry \<Rightarrow> domain \<Rightarrow> jsval \<Rightarrow> string \<Rightarrow> string \<Rightarrow> jsnum" where
  "convert_NaN_only cf d value fromUnit toUnit =
     (if d = Temperature then convertTemperature value fromUnit toUnit
      else if isNaN value then Fin 0
      else
        (let a = ToNumber (lookup (table_of cf d) fromUnit);
             b = ToNumber (lookup (table_of cf d) toUnit);
             result = (if d = Speed then ToNumber value / a * b else ToNumber value * a / b)
         in parseFloat (toFixed 10 result)))"

section \<open>Rounding to the nearest double\<close>

text \<open>The exponent of a positive real: the power of two at or below it.\<close>

lemma pow2_le_real: "2 ^ k \<le> (n::nat) \<Longrightarrow> (2::real) ^ k \<le> real n"
proof -
  assume "2 ^ k \<le> n"
  then have "real (2 ^ k) \<le> real n" by (simp only: of_nat_le_iff)
  then show ?thesis by simp
qed

lemma real_succ_le_pow2: "(n::nat) < 2 ^ k \<Longrightarrow> real n + 1 \<le> 2 ^ k"
proof -
  assume "n < 2 ^ k"
  then have "n + 1 \<le> 2 ^ k" by simp
  then have "real (n + 1) \<le> real (2 ^ k)" by (simp only: of_nat_le_iff)
  then show ?thesis by simp
qed

lemma floor_log2_bounds:
  assumes "0 < a"
  shows "2 powi (floor_log2 a) \<le> a" and "a < 2 powi (floor_log2 a + 1)"
proof -
  have "2 powi (floor_log2 a) \<le> a \<and> a < 2 powi (floor_log2 a + 1)"
  proof (cases "1 \<le> a")
    case True
    define N where "N = nat \<lfloor>a\<rfloor>"
    define L where "L = floorlog 2 N"
    have N: "0 < N" using True by (simp add: N_def)
    have b: "2 ^ (L - 1) \<le> N" "N < 2 ^ L"
      using floorlog_bounds [of N 2] N by (simp_all add: L_def)
    have L: "0 < L" using N by (simp add: L_def floorlog_def)
    have "floor_log2 a = int L - 1"
      using True by (simp add: floor_log2_def N_def L_def)
    also have "\<dots> = int (L - 1)" using L by simp
    finally have e: "floor_log2 a = int (L - 1)" .
    have Na: "real N \<le> a" "a < real N + 1"
      using True by (simp_all add: N_def)
    have lo: "2 ^ (L - 1) \<le> a"
      using pow2_le_real [OF b(1)] Na(1) by linarith
    have hi: "a < 2 ^ L"
      using real_succ_le_pow2 [OF b(2)] Na(2) by linarith
    have i: "int (L - 1) + 1 = int L" using L by simp
    have "(2::real) powi (int (L - 1) + 1) = 2 ^ L" by (simp only: i power_int_of_nat)
    with lo hi show ?thesis by (simp add: e)
  next
    case False
    define y where "y = 1 / a"
    define M where "M = nat \<lceil>y\<rceil> - 1"
    define L where "L = floorlog 2 M"
    have y: "1 < y" using False assms by (simp add: y_def)
    then have c: "2 \<le> \<lceil>y\<rceil>" by linarith
    then have M: "0 < M" by (simp add: M_def)
    have b: "2 ^ (L - 1) \<le> M" "M < 2 ^ L"
      using floorlog_bounds [of M 2] M by (simp_all add: L_def)
    have L: "0 < L" using M by (simp add: L_def floorlog_def)
    have e: "floor_log2 a = - int L"
      using False by (simp add: floor_log2_def M_def L_def y_def)
    have My: "real M < y" "y \<le> real M + 1"
      using c by (simp_all add: M_def) linarith+
    have yhi: "y \<le> 2 ^ L"
      using real_succ_le_pow2 [OF b(2)] My(2) by linarith
    have ylo: "2 ^ (L - 1) < y"
      using pow2_le_real [OF b(1)] My(1) by linarith
    have a: "a = 1 / y" using assms by (simp add: y_def)
    have "1 / 2 ^ L \<le> 1 / y"
      using yhi y by (intro divide_left_mono) simp_all
    moreover have "(2::real) powi (- int L) = 1 / 2 ^ L"
      by (simp only: power_int_minus power_int_of_nat inverse_eq_divide)
    ultimately have lo: "2 powi (- int L) \<le> a"
      by (simp only: a)
    have "1 / y < 1 / 2 ^ (L - 1)"
      using ylo y by (intro divide_strict_left_mono) simp_all
    then have u: "a < 1 / 2 ^ (L - 1)" by (simp only: a)
    have i: "- int L + 1 = - int (L - 1)" using L by simp
    have "(2::real) powi (- int L + 1) = 2 powi (- int (L - 1))" by (simp only: i)
    also have "\<dots> = 1 / 2 ^ (L - 1)"
      by (simp only: power_int_minus power_int_of_nat inverse_eq_divide)
    finally have "(2::real) powi (- int L + 1) = 1 / 2 ^ (L - 1)" .
    with u have hi: "a < 2 powi (- int L + 1)" by (simp only:)
    from lo hi show ?thesis by (simp add: e)
  qed
  then show "2 powi (floor_log2 a) \<le> a" and "a < 2 powi (floor_log2 a + 1)"
    by simp_all
qed

lemma floor_log2_eq:
  assumes "2 powi e \<le> a" "a < 2 powi (e + 1)"
  shows "floor_log2 a = e"
proof -
  have pos: "0 < a" using assms(1) zero_less_power_int [of "2::real" e] by linarith
  note b = floor_log2_bounds [OF pos]
  have "\<not> e + 1 \<le> floor_log2 a"
  proof
    assume "e + 1 \<le> floor_log2 a"
    then have "(2::real) powi (e + 1) \<le> 2 powi (floor_log2 a)"
      by (intro power_int_increasing) simp_all
    with b(1) assms(2) show False by linarith
  qed
  moreover have "\<not> floor_log2 a + 1 \<le> e"
  proof
    assume "floor_log2 a + 1 \<le> e"
    then have "(2::real) powi (floor_log2 a + 1) \<le> 2 powi e"
      by (intro power_int_increasing) simp_all
    with b(2) assms(1) show False by linarith
  qed
  ultimately show ?thesis by linarith
qed

lemma round_even_error: "\<bar>real_of_int (round_even x) - x\<bar> \<le> 1 / 2"
  unfolding round_even_def Let_def by (simp; linarith)

lemma round_even_near:
  assumes "\<bar>x - real_of_int n\<bar> < 1 / 2"
  shows "round_even x = n"
proof -
  consider "real_of_int n \<le> x" | "x < real_of_int n" by linarith
  then show ?thesis
  proof cases
    case 1
    then have "\<lfloor>x\<rfloor> = n" using assms by (intro floor_unique) linarith+
    then show ?thesis using assms 1 by (simp add: round_even_def Let_def)
  next
    case 2
    then have f: "\<lfloor>x\<rfloor> = n - 1" using assms by (intro floor_unique) (simp; linarith)+
    then show ?thesis using assms 2 by (simp add: round_even_def Let_def)
  qed
qed

lemma round_even_of_int: "round_even (real_of_int n) = n"
  by (rule round_even_near) simp

lemma round_even_minus: "round_even (- x) = - round_even x"
proof (cases "x = real_of_int \<lfloor>x\<rfloor>")
  case True
  then obtain n where "x = real_of_int n" by blast
  then have "- x = real_of_int (- n)" by simp
  then show ?thesis using round_even_of_int \<open>x = real_of_int n\<close> by metis
next
  case False
  define n where "n = \<lfloor>x\<rfloor>"
  have b: "real_of_int n < x" "x < real_of_int n + 1" using False by (simp_all add: n_def; linarith)+
  have f: "\<lfloor>- x\<rfloor> = - n - 1" using b by (intro floor_unique) (simp; linarith)+
  have en: "even (- n - 1) = (\<not> even n)" by simp
  show ?thesis
    unfolding round_even_def Let_def f n_def [symmetric] using b
    by (simp add: en; linarith)
qed

lemma fl_zero: "fl 0 = Fin 0"
  by (simp add: fl_def Let_def round_even_def)

lemma fl_minus: "fl (- x) = - fl x"
proof -
  define e where "e = max (floor_log2 \<bar>x\<bar>) (- 1022)"
  define u :: real where "u = 2 powi (e - 52)"
  define y where "y = real_of_int (round_even (x / u)) * u"
  have u: "0 < u" by (simp add: u_def)
  have a: "fl x = (if 2 ^ 1024 \<le> \<bar>y\<bar> then signed_infinity x else Fin y)"
    by (simp only: fl_def Let_def e_def u_def y_def)
  have "real_of_int (round_even (- x / u)) * u = - y"
    by (simp add: y_def round_even_minus)
  then have b: "fl (- x) = (if 2 ^ 1024 \<le> \<bar>y\<bar> then signed_infinity (- x) else Fin (- y))"
    by (simp add: fl_def Let_def e_def u_def)
  show ?thesis
  proof (cases "2 ^ 1024 \<le> \<bar>y\<bar>")
    case False
    then show ?thesis by (simp only: a b if_False uminus_jsnum.simps)
  next
    case True
    then have "y \<noteq> 0" by auto
    then have "round_even (x / u) \<noteq> 0" by (auto simp: y_def)
    then have "x \<noteq> 0" by (auto simp: round_even_def)
    then have "signed_infinity (- x) = - signed_infinity x"
      by (simp add: signed_infinity_def)
    with True show ?thesis by (simp only: a b if_True)
  qed
qed

text \<open>The error of one rounding.\<close>

lemma fl_error:
  assumes "\<bar>x\<bar> < 2 ^ 1023"
  shows "\<exists>y. fl x = Fin y \<and> \<bar>y - x\<bar> \<le> \<bar>x\<bar> / 2 ^ 53 + 1 / 2 ^ 1075"
proof (cases "x = 0")
  case True
  then show ?thesis by (simp add: fl_zero)
next
  case False
  define e where "e = max (floor_log2 \<bar>x\<bar>) (- 1022)"
  define u :: real where "u = 2 powi (e - 52)"
  define y where "y = real_of_int (round_even (x / u)) * u"
  have u: "0 < u" by (simp add: u_def)
  have pos: "0 < \<bar>x\<bar>" using False by simp
  note b = floor_log2_bounds [OF pos]
  have "\<not> 1023 \<le> floor_log2 \<bar>x\<bar>"
  proof
    assume "1023 \<le> floor_log2 \<bar>x\<bar>"
    then have "(2::real) powi 1023 \<le> 2 powi (floor_log2 \<bar>x\<bar>)"
      by (rule power_int_increasing) simp
    with b(1) assms show False by simp
  qed
  then have e_hi: "e \<le> 1022" by (simp add: e_def)
  have "\<bar>real_of_int (round_even (x / u)) - x / u\<bar> * u \<le> 1 / 2 * u"
    using round_even_error [of "x / u"] u by (intro mult_right_mono) simp_all
  moreover have "\<bar>real_of_int (round_even (x / u)) - x / u\<bar> * u = \<bar>y - x\<bar>"
  proof -
    have "\<bar>real_of_int (round_even (x / u)) - x / u\<bar> * u
            = \<bar>(real_of_int (round_even (x / u)) - x / u) * u\<bar>"
      using u by (simp add: abs_mult)
    also have "(real_of_int (round_even (x / u)) - x / u) * u = y - x"
      using u by (simp add: y_def left_diff_distrib)
    finally show ?thesis .
  qed
  ultimately have err: "\<bar>y - x\<bar> \<le> u / 2" by simp
  have half: "u / 2 = 2 powi e / 2 ^ 53"
  proof -
    have "(2::real) powi (e - 52) = 2 powi e / 2 powi 52"
      by (rule power_int_diff) simp
    then show ?thesis by (simp add: u_def)
  qed
  have "u / 2 \<le> \<bar>x\<bar> / 2 ^ 53 + 1 / 2 ^ 1075"
  proof (cases "- 1022 \<le> floor_log2 \<bar>x\<bar>")
    case True
    then have "e = floor_log2 \<bar>x\<bar>" by (simp add: e_def)
    then have "2 powi e \<le> \<bar>x\<bar>" using b(1) by simp
    then have "2 powi e / 2 ^ 53 \<le> \<bar>x\<bar> / 2 ^ 53" by (simp add: divide_right_mono)
    then show ?thesis by (simp add: half)
  next
    case False
    then have "e = - 1022" by (simp add: e_def)
    then have "u / 2 = 1 / 2 ^ 1075" by (simp add: half)
    then show ?thesis by simp
  qed
  with err have bound: "\<bar>y - x\<bar> \<le> \<bar>x\<bar> / 2 ^ 53 + 1 / 2 ^ 1075" by linarith
  have "(2::real) powi e \<le> 2 powi 1022"
    using e_hi by (rule power_int_increasing) simp
  then have "u / 2 \<le> 2 ^ 1022 / 2 ^ 53" by (simp add: half divide_right_mono)
  with err assms have "\<bar>y\<bar> < 2 ^ 1023 + 2 ^ 1022 / 2 ^ 53" by linarith
  then have "\<not> 2 ^ 1024 \<le> \<bar>y\<bar>" by simp
  then have "fl x = Fin y"
    by (simp add: fl_def Let_def e_def [symmetric] u_def [symmetric] y_def [symmetric])
  with bound show ?thesis by blast
qed

text \<open>The double of a real between two powers of two, given the multiple of the
  spacing that is nearest to it.\<close>

lemma fl_eval:
  assumes e: "- 1022 \<le> e" "e \<le> 1022"
    and x: "2 powi e \<le> \<bar>x\<bar>" "\<bar>x\<bar> < 2 powi (e + 1)"
    and n: "\<bar>x / 2 powi (e - 52) - real_of_int n\<bar> < 1 / 2"
  shows "fl x = Fin (real_of_int n * 2 powi (e - 52))"
proof -
  have fe: "max (floor_log2 \<bar>x\<bar>) (- 1022) = e"
    using floor_log2_eq [OF x] e by simp
  have r: "round_even (x / 2 powi (e - 52)) = n"
    using n by (rule round_even_near)
  have "\<bar>x\<bar> < 2 ^ 1023"
  proof -
    have "(2::real) powi (e + 1) \<le> 2 powi 1023"
      using e by (intro power_int_increasing) simp_all
    with x(2) show ?thesis by simp
  qed
  then obtain y where y: "fl x = Fin y" using fl_error by blast
  then have "2 ^ 1024 \<le> \<bar>real_of_int n * 2 powi (e - 52)\<bar> \<longrightarrow> False"
    by (simp add: fl_def Let_def fe r signed_infinity_def split: if_splits)
  then show ?thesis
    by (simp add: fl_def Let_def fe r)
qed

lemma fl_eval':
  assumes "- 1022 \<le> e" "e \<le> 1022"
    and "2 powi e \<le> \<bar>x\<bar>" "\<bar>x\<bar> < 2 powi (e + 1)"
    and "\<bar>x / 2 powi (e - 52) - real_of_int n\<bar> < 1 / 2"
    and "y = real_of_int n * 2 powi (e - 52)"
  shows "fl x = Fin y"
  using fl_eval [OF assms(1-5)] assms(6) by simp

lemma round_even_ge_floor: "\<lfloor>x\<rfloor> \<le> round_even x"
  by (simp add: round_even_def Let_def)

text \<open>From \<open>2^1024\<close> on the rounding overflows.\<close>

lemma fl_overflow:
  assumes "2 ^ 1024 \<le> x"
  shows "fl x = Infinity"
proof -
  have x: "0 < x" "\<bar>x\<bar> = x" using assms by (simp_all add: less_le_trans [of 0 "2 ^ 1024" x])
  define e where "e = floor_log2 x"
  define u :: real where "u = 2 powi (e - 52)"
  define y where "y = real_of_int (round_even (x / u)) * u"
  note b = floor_log2_bounds [OF x(1)]
  have "\<not> e + 1 \<le> 1024"
  proof
    assume "e + 1 \<le> 1024"
    then have "(2::real) powi (e + 1) \<le> 2 powi 1024"
      by (rule power_int_increasing) simp
    with b(2) assms show False by (simp add: e_def)
  qed
  then have e: "1024 \<le> e" by simp
  then have m: "max e (- 1022) = e" by simp
  have u: "0 < u" by (simp add: u_def)
  have "(2::real) powi e = 2 powi (52 + (e - 52))" by simp
  also have "\<dots> = 2 powi 52 * 2 powi (e - 52)" by (rule power_int_add) simp
  finally have eu: "2 powi e = 2 ^ 52 * u" by (simp add: u_def)
  have "2 ^ 52 * u \<le> x" using b(1) by (simp add: e_def [symmetric] eu)
  then have "2 ^ 52 \<le> x / u" using u by (simp add: pos_le_divide_eq)
  then have "real_of_int (2 ^ 52) \<le> x / u" by simp
  then have "2 ^ 52 \<le> \<lfloor>x / u\<rfloor>" by (simp only: le_floor_iff)
  then have "2 ^ 52 \<le> round_even (x / u)" using round_even_ge_floor [of "x / u"] by linarith
  then have "real_of_int (2 ^ 52) \<le> real_of_int (round_even (x / u))" by (simp only: of_int_le_iff)
  then have "2 ^ 52 * u \<le> y" using u by (simp add: y_def)
  moreover have "(2::real) powi 1024 \<le> 2 powi e" using e by (rule power_int_increasing) simp
  ultimately have "2 ^ 1024 \<le> y" by (simp add: eu)
  then have "2 ^ 1024 \<le> \<bar>y\<bar>" by linarith
  then show ?thesis
    using x(1)
    by (simp add: fl_def Let_def x(2) e_def [symmetric] m u_def [symmetric] y_def [symmetric]
        signed_infinity_def)
qed

text \<open>A multiple of the spacing within its range is left as it is.\<close>

lemma fl_exact_normal:
  assumes "- 1022 \<le> e" "2 powi e \<le> \<bar>y\<bar>" "\<bar>y\<bar> < 2 powi (e + 1)" "\<bar>y\<bar> < 2 ^ 1024"
    and "y = real_of_int k * 2 powi (e - 52)"
  shows "fl y = Fin y"
proof -
  have fe: "max (floor_log2 \<bar>y\<bar>) (- 1022) = e"
    using floor_log2_eq [OF assms(2,3)] assms(1) by simp
  have "y / 2 powi (e - 52) = real_of_int k" by (simp add: assms(5))
  then have r: "round_even (y / 2 powi (e - 52)) = k" by (simp only: round_even_of_int)
  show ?thesis
    using assms(4) by (simp add: fl_def Let_def fe r assms(5) [symmetric])
qed

lemma fl_exact_subnormal:
  assumes "\<bar>y\<bar> < 2 powi (- 1022)" "y = real_of_int k * 2 powi (- 1074)"
  shows "fl y = Fin y"
proof (cases "y = 0")
  case True
  then show ?thesis by (simp add: fl_zero)
next
  case False
  then have pos: "0 < \<bar>y\<bar>" by simp
  note b = floor_log2_bounds [OF pos]
  have "\<not> - 1022 \<le> floor_log2 \<bar>y\<bar>"
  proof
    assume "- 1022 \<le> floor_log2 \<bar>y\<bar>"
    then have "(2::real) powi (- 1022) \<le> 2 powi (floor_log2 \<bar>y\<bar>)"
      by (rule power_int_increasing) simp
    with b(1) assms(1) show False by linarith
  qed
  then have fe: "max (floor_log2 \<bar>y\<bar>) (- 1022) = - 1022" by simp
  have u: "(- 1022 - 52 :: int) = - 1074" by simp
  have "y / 2 powi (- 1074) = real_of_int k" by (simp add: assms(2))
  then have r: "round_even (y / 2 powi (- 1074)) = k" by (simp only: round_even_of_int)
  have "(2::real) powi (- 1022) \<le> 2 powi 1024" by (rule power_int_increasing) simp_all
  then have "\<bar>y\<bar> < 2 ^ 1024" using assms(1) by simp
  then show ?thesis
    by (simp only: fl_def Let_def fe u r assms(2) [symmetric]) simp
qed

text \<open>What a rounding returns is a double.\<close>

lemma fl_double:
  assumes "fl x = Fin y"
  shows "double y"
proof (cases "x = 0")
  case True
  with assms show ?thesis by (simp add: fl_zero double_def)
next
  case False
  define e where "e = max (floor_log2 \<bar>x\<bar>) (- 1022)"
  define u :: real where "u = 2 powi (e - 52)"
  define n where "n = round_even (x / u)"
  have u: "0 < u" by (simp add: u_def)
  have e: "- 1022 \<le> e" by (simp add: e_def)
  have fx: "fl x = (if 2 ^ 1024 \<le> \<bar>real_of_int n * u\<bar> then signed_infinity x
                    else Fin (real_of_int n * u))"
    by (simp only: fl_def Let_def e_def u_def n_def)
  have c: "\<not> 2 ^ 1024 \<le> \<bar>real_of_int n * u\<bar>"
  proof
    assume "2 ^ 1024 \<le> \<bar>real_of_int n * u\<bar>"
    then have "fl x = signed_infinity x" by (simp only: fx if_True)
    with assms show False by (simp add: signed_infinity_def split: if_splits)
  qed
  then have "fl x = Fin (real_of_int n * u)" by (simp only: fx if_False)
  with assms have y: "y = real_of_int n * u" by simp
  have ylt: "\<bar>y\<bar> < 2 ^ 1024" using c by (simp only: y not_le)
  have pos: "0 < \<bar>x\<bar>" using False by simp
  note b = floor_log2_bounds [OF pos]
  have up: "2 powi (e + 1) = 2 ^ 53 * u"
  proof -
    have "e + 1 = 53 + (e - 52)" by simp
    then have "(2::real) powi (e + 1) = 2 powi (53 + (e - 52))" by (simp only:)
    also have "\<dots> = 2 powi 53 * 2 powi (e - 52)" by (rule power_int_add) simp
    finally show ?thesis by (simp add: u_def)
  qed
  have lo: "2 powi e = 2 ^ 52 * u"
  proof -
    have "(2::real) powi e = 2 powi (52 + (e - 52))" by simp
    also have "\<dots> = 2 powi 52 * 2 powi (e - 52)" by (rule power_int_add) simp
    finally show ?thesis by (simp add: u_def)
  qed
  have "(2::real) powi (floor_log2 \<bar>x\<bar> + 1) \<le> 2 powi (e + 1)"
    by (rule power_int_increasing) (simp_all add: e_def)
  with b(2) have "\<bar>x\<bar> < 2 ^ 53 * u" by (simp add: up)
  then have "\<bar>x\<bar> / u < 2 ^ 53" using u by (simp add: pos_divide_less_eq)
  then have xu: "\<bar>x / u\<bar> < 2 ^ 53" using u by simp
  have ne: "\<bar>real_of_int n - x / u\<bar> \<le> 1 / 2" unfolding n_def by (rule round_even_error)
  have "\<bar>real_of_int n\<bar> < 2 ^ 53 + 1" using xu ne by linarith
  then have "real_of_int \<bar>n\<bar> < real_of_int (2 ^ 53 + 1)" by simp
  then have "\<bar>n\<bar> < 2 ^ 53 + 1" by (simp only: of_int_less_iff)
  then have nhi: "\<bar>n\<bar> \<le> 2 ^ 53" by simp
  have ay: "\<bar>y\<bar> = real_of_int \<bar>n\<bar> * u" using u by (simp add: y abs_mult)
  show ?thesis
  proof (cases "\<bar>n\<bar> = 2 ^ 53")
    case True
    have a: "\<bar>y\<bar> = 2 powi (e + 1)" by (simp add: ay True up)
    have "(2::real) powi (e + 1) < 2 powi (e + 1 + 1)"
      by (rule power_int_strict_increasing) simp_all
    then have c: "\<bar>y\<bar> < 2 powi (e + 1 + 1)" by (simp only: a)
    have "e + 1 - 52 = 1 + (e - 52)" by simp
    then have "(2::real) powi (e + 1 - 52) = 2 powi (1 + (e - 52))" by (simp only:)
    also have "\<dots> = 2 powi 1 * 2 powi (e - 52)" by (rule power_int_add) simp
    finally have u2: "2 powi (e + 1 - 52) = 2 * u" by (simp add: u_def)
    have "n = 2 * 2 ^ 52 \<or> n = 2 * (- (2 ^ 52))" using True by (cases "0 \<le> n") simp_all
    then obtain k where k: "n = 2 * k" by blast
    have "y = real_of_int k * 2 powi (e + 1 - 52)" by (simp only: u2) (simp add: y k)
    moreover have "- 1022 \<le> e + 1" using e by simp
    moreover have "2 powi (e + 1) \<le> \<bar>y\<bar>" by (simp only: a)
    ultimately have "fl y = Fin y" using c ylt by (intro fl_exact_normal [where e = "e + 1"])
    then show ?thesis by (simp only: double_def)
  next
    case False
    with nhi have nlt: "\<bar>n\<bar> < 2 ^ 53" by simp
    then have "real_of_int \<bar>n\<bar> < real_of_int (2 ^ 53)" by (simp only: of_int_less_iff)
    then have "real_of_int \<bar>n\<bar> * u < 2 ^ 53 * u" using u by simp
    then have hi: "\<bar>y\<bar> < 2 powi (e + 1)" by (simp only: ay up)
    show ?thesis
    proof (cases "2 ^ 52 \<le> \<bar>n\<bar>")
      case True
      then have "real_of_int (2 ^ 52) \<le> real_of_int \<bar>n\<bar>" by (simp only: of_int_le_iff)
      then have "2 ^ 52 * u \<le> real_of_int \<bar>n\<bar> * u" using u by simp
      then have ge: "2 powi e \<le> \<bar>y\<bar>" by (simp only: ay lo)
      have "fl y = Fin y"
        by (rule fl_exact_normal [OF e ge hi ylt y [unfolded u_def]])
      then show ?thesis by (simp only: double_def)
    next
      case False
      have sub: "e = - 1022"
      proof (rule ccontr)
        assume "e \<noteq> - 1022"
        then have "floor_log2 \<bar>x\<bar> = e" by (simp add: e_def max_def split: if_splits)
        then have "2 powi e \<le> \<bar>x\<bar>" using b(1) by (simp only:)
        then have "2 ^ 52 * u \<le> \<bar>x\<bar>" by (simp only: lo)
        then have "2 ^ 52 \<le> \<bar>x\<bar> / u" using u by (simp add: pos_le_divide_eq)
        then have "2 ^ 52 \<le> \<bar>x / u\<bar>" using u by simp
        then have "2 ^ 52 - 1 < \<bar>real_of_int n\<bar>" using ne by linarith
        then have "real_of_int (2 ^ 52 - 1) < real_of_int \<bar>n\<bar>" by simp
        then have "2 ^ 52 - 1 < \<bar>n\<bar>" by (simp only: of_int_less_iff)
        with False show False by simp
      qed
      from False have "\<bar>n\<bar> < 2 ^ 52" by simp
      then have "real_of_int \<bar>n\<bar> < real_of_int (2 ^ 52)" by (simp only: of_int_less_iff)
      then have "real_of_int \<bar>n\<bar> * u < 2 ^ 52 * u" using u by simp
      then have "\<bar>y\<bar> < 2 powi (- 1022)" by (simp only: ay lo [symmetric] sub)
      moreover have "y = real_of_int n * 2 powi (- 1074)" by (simp add: y u_def sub)
      ultimately have "fl y = Fin y" by (rule fl_exact_subnormal)
      then show ?thesis by (simp only: double_def)
    qed
  qed
qed

section \<open>Printing with \<^verbatim>\<open>toFixed\<close> and reading back\<close>

text \<open>A string of one or more digits, with or without a fraction, is read as the
  number it denotes.\<close>

lemma unsigned_literal_decimal:
  assumes ip: "ip \<noteq> []" "\<forall>c \<in> set ip. is_digit c"
    and fp: "\<forall>c \<in> set fp. is_digit c"
    and fr: "fr = (if fp = [] then [] else ''.'' @ fp)"
  shows "unsigned_literal (ip @ fr) = fl (real (nat_of_digits (ip @ fp)) / 10 ^ length fp)"
proof -
  have nodig: "\<not> is_digit (CHR ''.'')" "\<not> is_digit (CHR ''I'')"
    by (simp_all add: is_digit_def)
  have inf: "take 8 (ip @ fr) \<noteq> ''Infinity''"
  proof
    assume "take 8 (ip @ fr) = ''Infinity''"
    then have "hd (take 8 (ip @ fr)) = CHR ''I''" by simp
    moreover have "hd (take 8 (ip @ fr)) = hd ip" using ip(1) by (cases ip) simp_all
    moreover have "is_digit (hd ip)" using ip by (cases ip) simp_all
    ultimately show False using nodig by simp
  qed
  have tw: "takeWhile is_digit (ip @ fr) = ip"
    using ip(2) fr nodig by (simp add: takeWhile_append2)
  have dw: "dropWhile is_digit (ip @ fr) = fr"
    using ip(2) fr nodig by (simp add: dropWhile_append2)
  have tf: "takeWhile is_digit fp = fp" "dropWhile is_digit fp = []"
    using fp by simp_all
  show ?thesis
  proof (cases "fp = []")
    case True
    then have f: "fr = []" using fr by simp
    have "unsigned_literal (ip @ fr) =
            fl (scale10 (real (nat_of_digits (ip @ fp)) / 10 ^ length fp) (exponent_part []))"
      unfolding unsigned_literal_def Let_def tw dw using inf ip(1) by (simp add: f True)
    then show ?thesis
      by (simp add: exponent_part_def scale10_def)
  next
    case False
    then have f: "fr = CHR ''.'' # fp" using fr by simp
    have "unsigned_literal (ip @ fr) =
            fl (scale10 (real (nat_of_digits (ip @ fp)) / 10 ^ length fp) (exponent_part []))"
      unfolding unsigned_literal_def Let_def tw dw using inf ip(1) by (simp add: f tf)
    then show ?thesis
      by (simp add: exponent_part_def scale10_def)
  qed
qed

lemma parseFloat_signed:
  assumes "u \<noteq> []" "is_digit (hd u)"
  shows "parseFloat (''-'' @ u) = - unsigned_literal u" "parseFloat u = unsigned_literal u"
proof -
  obtain d ds where u: "u = d # ds" using assms(1) by (cases u) auto
  with assms(2) have "\<not> is_space d" "d \<noteq> CHR ''-''" "d \<noteq> CHR ''+''"
    by (auto simp: is_digit_def is_space_def)
  then show "parseFloat u = unsigned_literal u"
    by (simp add: parseFloat_def u)
  show "parseFloat (''-'' @ u) = - unsigned_literal u"
    by (simp add: parseFloat_def is_space_def)
qed

lemma is_digit_digit_char: "d < 10 \<Longrightarrow> is_digit (digit_char d)"
  by (simp add: is_digit_def digit_char_def)

lemma digit_val_digit_char: "d < 10 \<Longrightarrow> digit_val (digit_char d) = d"
  by (simp add: digit_val_def digit_char_def)

lemma digits_all_digit: "\<forall>c \<in> set (digits n). is_digit c"
proof (induction n rule: digits.induct)
  case (1 n)
  show ?case
  proof (cases "n < 10")
    case True
    then show ?thesis by (subst digits.simps) (simp add: is_digit_digit_char)
  next
    case False
    with 1 show ?thesis by (subst digits.simps) (simp add: is_digit_digit_char)
  qed
qed

lemma digits_nonempty: "digits n \<noteq> []"
  by (subst digits.simps) simp

lemma nat_of_digits_snoc: "nat_of_digits (xs @ [c]) = 10 * nat_of_digits xs + digit_val c"
  by (simp add: nat_of_digits_def)

lemma nat_of_digits_digits: "nat_of_digits (digits n) = n"
proof (induction n rule: digits.induct)
  case (1 n)
  show ?case
  proof (cases "n < 10")
    case True
    then show ?thesis
      by (subst digits.simps) (simp add: nat_of_digits_def digit_val_digit_char)
  next
    case False
    with 1 show ?thesis
      by (subst digits.simps) (simp add: nat_of_digits_snoc digit_val_digit_char)
  qed
qed

lemma nat_of_digits_append:
  "nat_of_digits (xs @ ys) = nat_of_digits xs * 10 ^ length ys + nat_of_digits ys"
proof (induction ys rule: rev_induct)
  case Nil
  show ?case by (simp add: nat_of_digits_def)
next
  case (snoc y ys)
  have "nat_of_digits (xs @ ys @ [y]) = 10 * nat_of_digits (xs @ ys) + digit_val y"
    using nat_of_digits_snoc [of "xs @ ys" y] by simp
  with snoc show ?case
    by (simp add: nat_of_digits_snoc algebra_simps)
qed

lemma nat_of_digits_zeros: "nat_of_digits (replicate k (CHR ''0'')) = 0"
proof (induction k)
  case 0
  show ?case by (simp add: nat_of_digits_def)
next
  case (Suc k)
  have "replicate (Suc k) (CHR ''0'') = replicate k (CHR ''0'') @ [CHR ''0'']"
    by (simp add: replicate_append_same)
  with Suc show ?case
    by (simp only: nat_of_digits_snoc) (simp add: digit_val_def)
qed

lemma is_digit_zero: "is_digit (CHR ''0'')"
  by (simp add: is_digit_def)

lemma zero_pad_props:
  assumes "\<forall>c \<in> set m. is_digit c"
  shows "\<forall>c \<in> set (zero_pad w m). is_digit c"
    and "w \<le> length (zero_pad w m)"
    and "nat_of_digits (zero_pad w m) = nat_of_digits m"
  using assms
  by (auto simp: zero_pad_def is_digit_zero nat_of_digits_append nat_of_digits_zeros)

lemma parseFloat_toFixed_Fin: "parseFloat (toFixed f (Fin r)) = fl (round_dp f r)"
proof -
  define n where "n = nat \<lfloor>\<bar>r\<bar> * 10 ^ f + 1 / 2\<rfloor>"
  define z where "z = zero_pad (f + 1) (digits n)"
  define ip where "ip = (if f \<noteq> 0 then take (length z - f) z else digits n)"
  define fp where "fp = (if f \<noteq> 0 then drop (length z - f) z else [])"
  define fr where "fr = (if fp = [] then [] else ''.'' @ fp)"
  define sg where "sg = (if r < 0 then ''-'' else [])"
  have zd: "\<forall>c \<in> set z. is_digit c" and zl: "f + 1 \<le> length z"
    and zv: "nat_of_digits z = n"
    using zero_pad_props [OF digits_all_digit, of "f + 1" n]
    by (simp_all add: z_def nat_of_digits_digits)
  have fpl: "length fp = f"
    using zl by (auto simp: fp_def)
  have shape: "toFixed f (Fin r) = sg @ ip @ fr"
  proof (cases "f = 0")
    case True
    then show ?thesis
      by (simp add: toFixed_def Let_def n_def ip_def fp_def fr_def sg_def)
  next
    case False
    with fpl have "fp \<noteq> []" by auto
    then have "fr = ''.'' @ fp" by (simp add: fr_def)
    then show ?thesis
      using False
      by (simp add: toFixed_def Let_def n_def z_def ip_def fp_def sg_def)
  qed
  have ipd: "\<forall>c \<in> set ip. is_digit c"
    using zd digits_all_digit by (auto simp: ip_def dest: in_set_takeD)
  have ipn: "ip \<noteq> []"
    using zl digits_nonempty by (auto simp: ip_def)
  have fpd: "\<forall>c \<in> set fp. is_digit c"
    using zd by (auto simp: fp_def dest: in_set_dropD)
  have val: "nat_of_digits (ip @ fp) = n"
    using zv by (simp add: ip_def fp_def nat_of_digits_digits)
  have lit: "unsigned_literal (ip @ fr) = fl (real n / 10 ^ f)"
    using unsigned_literal_decimal [OF ipn ipd fpd fr_def] by (simp add: val fpl)
  have hd: "ip @ fr \<noteq> []" "is_digit (hd (ip @ fr))"
    using ipn ipd by (cases ip; simp)+
  have n0: "real n = real_of_int \<lfloor>\<bar>r\<bar> * 10 ^ f + 1 / 2\<rfloor>"
  proof -
    have "0 \<le> \<bar>r\<bar> * 10 ^ f + 1 / 2" by simp
    then have "0 \<le> \<lfloor>\<bar>r\<bar> * 10 ^ f + 1 / 2\<rfloor>" by (simp only: zero_le_floor)
    then show ?thesis by (simp add: n_def)
  qed
  show ?thesis
  proof (cases "r < 0")
    case True
    then have "parseFloat (toFixed f (Fin r)) = - unsigned_literal (ip @ fr)"
      using parseFloat_signed(1) [OF hd] by (simp add: shape sg_def)
    also have "\<dots> = fl (- (real n / 10 ^ f))" by (simp only: lit fl_minus)
    finally show ?thesis using True by (simp add: round_dp_def n0)
  next
    case False
    then have "parseFloat (toFixed f (Fin r)) = unsigned_literal (ip @ fr)"
      using parseFloat_signed(2) [OF hd] by (simp add: shape sg_def)
    then show ?thesis using False by (simp add: lit round_dp_def n0)
  qed
qed

lemma parseFloat_toFixed_special:
  "parseFloat (toFixed f NaN) = NaN"
  "parseFloat (toFixed f Infinity) = Infinity"
  "parseFloat (toFixed f MinusInfinity) = MinusInfinity"
  by (simp_all add: toFixed_def parseFloat_def unsigned_literal_def is_space_def is_digit_def)

lemma parseFloat_toFixed: "parseFloat (toFixed f x) = rounded f x"
  by (cases x) (simp_all add: parseFloat_toFixed_special parseFloat_toFixed_Fin rounded_def)

section \<open>Arithmetic with \<^verbatim>\<open>NaN\<close> and the conversion steps\<close>

lemma times_NaN: "x * NaN = NaN" "NaN * x = NaN"
  by (cases x; simp)+

lemma divide_NaN: "x / NaN = NaN" "NaN / x = NaN"
  by (cases x; simp)+

lemma round_dp_zero: "round_dp f 0 = 0"
  by (simp add: round_dp_def)

lemma rounded_zero: "rounded f (Fin 0) = Fin 0"
  by (simp add: rounded_def round_dp_zero fl_zero)

lemma falsy_Number: "falsy (Number x) = (x = Fin 0 \<or> x = NaN)"
  by (simp add: falsy_def)

lemma isNaN_Number: "isNaN (Number x) = (x = NaN)"
  by (simp add: isNaN_def)

text \<open>Every factor of the registry lies between \<open>10^-6\<close> and \<open>10^6\<close>, and its double is
  finite, positive and next to it.\<close>

lemma factor_range:
  assumes "map_of (table_of conversionFactors d) u = Some f"
  shows "1 / 10 ^ 6 \<le> f \<and> f \<le> 10 ^ 6"
  using assms
  by (cases d) (auto simp: conversionFactors_def split: if_splits)

lemma literal_near:
  assumes "1 / 10 ^ 6 \<le> f" "f \<le> 10 ^ 7"
  shows "\<exists>f'. literal f = Fin f' \<and> 0 < f' \<and> \<bar>f' - f\<bar> \<le> f / 2 ^ 53 + 1 / 2 ^ 1075"
proof -
  have "\<bar>f\<bar> < 2 ^ 1023" using assms by simp
  then obtain f' where f': "fl f = Fin f'" "\<bar>f' - f\<bar> \<le> \<bar>f\<bar> / 2 ^ 53 + 1 / 2 ^ 1075"
    using fl_error by blast
  have p: "\<bar>f\<bar> = f" using assms by simp
  have "0 < f'" using f'(2) assms unfolding p by simp
  with f' show ?thesis unfolding p by (auto simp: literal_def)
qed

lemma literal_factor:
  assumes "map_of (table_of conversionFactors d) u = Some f"
  shows "\<exists>f'. literal f = Fin f' \<and> 0 < f'"
proof -
  have "1 / 10 ^ 6 \<le> f" "f \<le> 10 ^ 7" using factor_range [OF assms] by simp_all
  then show ?thesis using literal_near [of f] by blast
qed

text \<open>With both symbols in the table a linear converter is the rounded quotient of the
  double operations, unless the early return came first.\<close>

lemma convert_known:
  assumes "d \<noteq> Temperature"
    and "map_of (table_of cf d) A = Some a" "map_of (table_of cf d) B = Some b"
  shows "convert cf d (Number x) A B =
           (if x = Fin 0 \<or> x = NaN then Fin 0
            else rounded 10 (if d = Speed then x / literal a * literal b
                             else x * literal a / literal b))"
  using assms
  by (cases d)
    (simp_all add: convertLength_def convertWeight_def convertVolume_def convertSpeed_def
      convertArea_def convertPressure_def falsy_Number isNaN_Number Let_def parseFloat_toFixed
      lookup_def)

text \<open>With a symbol missing from the table the factor is \<^verbatim>\<open>undefined\<close>, the arithmetic
  makes it \<^verbatim>\<open>NaN\<close>, and so is the result unless the early return came first.\<close>

lemma convert_unknown:
  assumes "d \<noteq> Temperature"
    and "map_of (table_of cf d) A = None \<or> map_of (table_of cf d) B = None"
  shows "convert cf d v A B = (if falsy v then Fin 0 else NaN)"
proof (cases "falsy v")
  case True
  with assms(1) show ?thesis
    by (cases d)
      (simp_all add: convertLength_def convertWeight_def convertVolume_def convertSpeed_def
        convertArea_def convertPressure_def)
next
  case False
  then have n: "\<not> isNaN v" by (cases v) (simp_all add: falsy_def isNaN_def)
  have "parseFloat (toFixed 10 NaN) = NaN" by (simp add: parseFloat_toFixed_special)
  with assms False n show ?thesis
    by (cases d)
      (auto simp: convertLength_def convertWeight_def convertVolume_def convertSpeed_def
        convertArea_def convertPressure_def Let_def times_NaN divide_NaN lookup_def)
qed

lemma convertTemperature_Number:
  "x \<noteq> NaN \<Longrightarrow>
   convertTemperature (Number x) fromUnit toUnit =
     rounded 4 (from_celsius toUnit (to_celsius fromUnit x))"
  by (simp add: convertTemperature_def isNaN_Number Let_def parseFloat_toFixed
      to_celsius_def from_celsius_def)

lemma zero_through_factors:
  assumes "0 < a'" "0 < b'"
  shows "Fin 0 * Fin a' / Fin b' = Fin 0" "Fin 0 / Fin a' * Fin b' = Fin 0"
  using assms by (simp_all add: fl_zero)

lemma convert_eq_NaN_only:
  assumes "d \<noteq> Temperature"
    and "map_of (table_of conversionFactors d) A = Some a"
    and "map_of (table_of conversionFactors d) B = Some b"
  shows "convert conversionFactors d v A B = convert_NaN_only conversionFactors d v A B"
proof (cases "v = Number (Fin 0)")
  case True
  obtain a' b' where ab: "literal a = Fin a'" "0 < a'" "literal b = Fin b'" "0 < b'"
    using literal_factor [OF assms(2)] literal_factor [OF assms(3)] by blast
  have "convert_NaN_only conversionFactors d (Number (Fin 0)) A B = Fin 0"
    using assms ab zero_through_factors [OF ab(2) ab(4)]
    by (simp add: convert_NaN_only_def isNaN_Number Let_def parseFloat_toFixed rounded_zero
        lookup_def)
  moreover have "convert conversionFactors d (Number (Fin 0)) A B = Fin 0"
    using convert_known [OF assms, of "Fin 0"] by simp
  ultimately show ?thesis using True by simp
next
  case False
  then have "falsy v = isNaN v" by (cases v) (simp_all add: falsy_def isNaN_def)
  with assms(1) show ?thesis
    by (cases d)
      (simp_all add: convert_NaN_only_def convertLength_def convertWeight_def convertVolume_def
        convertSpeed_def convertArea_def convertPressure_def Let_def)
qed

lemma convert_formula:
  assumes "d \<noteq> Temperature"
    and "map_of (table_of conversionFactors d) A = Some a"
    and "map_of (table_of conversionFactors d) B = Some b"
  shows "convert conversionFactors d (Number (Fin v)) A B =
           rounded 10 (if d = Speed then Fin v / literal a * literal b
                       else Fin v * literal a / literal b)"
proof (cases "v = 0")
  case True
  obtain a' b' where ab: "literal a = Fin a'" "0 < a'" "literal b = Fin b'" "0 < b'"
    using literal_factor [OF assms(2)] literal_factor [OF assms(3)] by blast
  show ?thesis
    using convert_known [OF assms, of "Fin v"] True zero_through_factors [OF ab(2) ab(4)]
    by (simp add: ab rounded_zero)
next
  case False
  then show ?thesis using convert_known [OF assms, of "Fin v"] by simp
qed

text \<open>The steps of a conversion between two symbols of a table, given the doubles
  \<open>a'\<close> and \<open>b'\<close> of the two factors.\<close>

lemma steps_linear:
  assumes "0 < a'" "0 < b'"
    and "fl (v * a') = Fin x" "fl (x * (1 / b')) = Fin y" "fl (round_dp 10 y) = Fin z"
  shows "rounded 10 (Fin v * Fin a' / Fin b') = Fin z"
  using assms by (simp add: rounded_def)

lemma steps_speed:
  assumes "0 < a'" "0 < b'"
    and "fl (v * (1 / a')) = Fin x" "fl (x * b') = Fin y" "fl (round_dp 10 y) = Fin z"
  shows "rounded 10 (Fin v / Fin a' * Fin b') = Fin z"
  using assms by (simp add: rounded_def)

text \<open>What a converter returns is a double, when it is finite.\<close>

lemma rounded_double: "rounded f x = Fin y \<Longrightarrow> double y"
  by (cases x) (simp_all add: rounded_def fl_double)

lemma convert_double:
  assumes "convert cf d v A B = Fin y"
  shows "double y"
proof -
  have z: "double 0" by (simp add: double_def fl_zero)
  show ?thesis
    using assms z
    by (cases d)
      (auto simp: convertLength_def convertWeight_def convertVolume_def convertSpeed_def
        convertArea_def convertPressure_def convertTemperature_def Let_def parseFloat_toFixed
        split: if_splits dest: rounded_double)
qed

text \<open>The result of a conversion past its guard, and the two hops of the temperature
  conversion at each symbol.\<close>

lemma linear_steps:
  assumes "d \<noteq> Temperature" "d \<noteq> Speed"
    and "map_of (table_of cf d) A = Some a" "map_of (table_of cf d) B = Some b"
    and "x \<noteq> Fin 0" "x \<noteq> NaN"
  shows "convert cf d (Number x) A B = rounded 10 (x * literal a / literal b)"
  using convert_known [OF assms(1,3,4), of x] assms(2,5,6) by simp

lemma speed_steps:
  assumes "map_of (speed cf) A = Some a" "map_of (speed cf) B = Some b"
    and "x \<noteq> Fin 0" "x \<noteq> NaN"
  shows "convertSpeed cf (Number x) A B = rounded 10 (x / literal a * literal b)"
  using convert_known [of Speed cf A a B b x] assms by simp

lemma to_celsius_simps:
  "to_celsius ''celsius'' v = v"
  "to_celsius ''fahrenheit'' v = (v - Fin 32) * (Fin 5 / Fin 9)"
  "to_celsius ''kelvin'' v = v - literal 273.15"
  by (simp_all add: to_celsius_def)

lemma from_celsius_simps:
  "from_celsius ''celsius'' c = c"
  "from_celsius ''fahrenheit'' c = c * (Fin 9 / Fin 5) + Fin 32"
  "from_celsius ''kelvin'' c = c + literal 273.15"
  by (simp_all add: from_celsius_def)

section \<open>The linear converters\<close>

text \<open>The double operations of two conversions, step by step: one mile in kilometres,
  and 18 km/h in m/s.\<close>

lemma steps_mile_km:
  "rounded 10 (Fin 1 * literal 1609.344 / literal 1000) = literal 1.609344"
proof -
  have s1: "literal 1609.344 = Fin (1769492441091539 / 2 ^ 40)"
  proof -
    have "literal 1609.344 = fl (201168 / 125)"
      by (simp add: literal_def)
    also have "\<dots> = Fin (1769492441091539 / 2 ^ 40)"
      by (rule fl_eval' [where e = "10" and n = "7077969764366156"]) simp_all
    finally show ?thesis .
  qed
  have s2: "Fin 1 * Fin (1769492441091539 / 2 ^ 40) = Fin (1769492441091539 / 2 ^ 40)"
  proof -
    have "Fin 1 * Fin (1769492441091539 / 2 ^ 40) = fl (1769492441091539 / 1099511627776)"
      by (simp)
    also have "\<dots> = Fin (1769492441091539 / 2 ^ 40)"
      by (rule fl_eval' [where e = "10" and n = "7077969764366156"]) simp_all
    finally show ?thesis .
  qed
  have s3: "literal 1000 = Fin 1000"
  proof -
    have "literal 1000 = fl (1000)"
      by (simp add: literal_def)
    also have "\<dots> = Fin 1000"
      by (rule fl_eval' [where e = "9" and n = "8796093022208000"]) simp_all
    finally show ?thesis .
  qed
  have s4: "Fin (1769492441091539 / 2 ^ 40) / Fin 1000 = Fin (226495032459717 / 2 ^ 47)"
  proof -
    have "Fin (1769492441091539 / 2 ^ 40) / Fin 1000 = fl (1769492441091539 / 1099511627776000)"
      by (simp)
    also have "\<dots> = Fin (226495032459717 / 2 ^ 47)"
      by (rule fl_eval' [where e = "0" and n = "7247841038710944"]) simp_all
    finally show ?thesis .
  qed
  have s5: "rounded 10 (Fin (226495032459717 / 2 ^ 47)) = Fin (226495032459717 / 2 ^ 47)"
  proof -
    have "rounded 10 (Fin (226495032459717 / 2 ^ 47)) = fl (25146 / 15625)"
      by (simp add: rounded_def round_dp_def)
    also have "\<dots> = Fin (226495032459717 / 2 ^ 47)"
      by (rule fl_eval' [where e = "0" and n = "7247841038710944"]) simp_all
    finally show ?thesis .
  qed
  have s6: "literal 1.609344 = Fin (226495032459717 / 2 ^ 47)"
  proof -
    have "literal 1.609344 = fl (25146 / 15625)"
      by (simp add: literal_def)
    also have "\<dots> = Fin (226495032459717 / 2 ^ 47)"
      by (rule fl_eval' [where e = "0" and n = "7247841038710944"]) simp_all
    finally show ?thesis .
  qed
  show ?thesis
    by (simp only: s1 s2 s3 s4 s5 s6)
qed

lemma steps_kmh_ms:
  "rounded 10 (Fin 18 / literal 3.6 * literal 1) = Fin 5"
proof -
  have s1: "literal 3.6 = Fin (8106479329266893 / 2 ^ 51)"
  proof -
    have "literal 3.6 = fl (18 / 5)"
      by (simp add: literal_def)
    also have "\<dots> = Fin (8106479329266893 / 2 ^ 51)"
      by (rule fl_eval' [where e = "1" and n = "8106479329266893"]) simp_all
    finally show ?thesis .
  qed
  have s2: "Fin 18 / Fin (8106479329266893 / 2 ^ 51) = Fin 5"
  proof -
    have "Fin 18 / Fin (8106479329266893 / 2 ^ 51) = fl (40532396646334464 / 8106479329266893)"
      by (simp)
    also have "\<dots> = Fin 5"
      by (rule fl_eval' [where e = "2" and n = "5629499534213120"]) simp_all
    finally show ?thesis .
  qed
  have s3: "literal 1 = Fin 1"
  proof -
    have "literal 1 = fl (1)"
      by (simp add: literal_def)
    also have "\<dots> = Fin 1"
      by (rule fl_eval' [where e = "0" and n = "4503599627370496"]) simp_all
    finally show ?thesis .
  qed
  have s4: "Fin 5 * Fin 1 = Fin 5"
  proof -
    have "Fin 5 * Fin 1 = fl (5)"
      by (simp)
    also have "\<dots> = Fin 5"
      by (rule fl_eval' [where e = "2" and n = "5629499534213120"]) simp_all
    finally show ?thesis .
  qed
  have s5: "rounded 10 (Fin 5) = Fin 5"
  proof -
    have "rounded 10 (Fin 5) = fl (5)"
      by (simp add: rounded_def round_dp_def)
    also have "\<dots> = Fin 5"
      by (rule fl_eval' [where e = "2" and n = "5629499534213120"]) simp_all
    finally show ?thesis .
  qed
  show ?thesis
    by (simp only: s1 s2 s3 s4 s5)
qed

text \<open>
  C1. In each of the five multiplicative domains (length, weight, volume, area,
  pressure), for unit symbols \<open>A\<close> and \<open>B\<close> of the domain's table with factors \<open>a\<close> and
  \<open>b\<close> and a finite value \<open>v\<close> that is not zero, the converter returns the Number
  \<open>v * a / b\<close> rounded to 10 decimal places: the product and the quotient are those of
  the doubles, of \<open>v\<close> and of the doubles of the two factors, and the rounding is that of
  \<^verbatim>\<open>toFixed(10)\<close> read back by \<^verbatim>\<open>parseFloat\<close>.
\<close>

theorem scale_domains_convert:
  assumes "d \<in> {Length, Weight, Volume, Area, Pressure}"
    and "map_of (table_of conversionFactors d) A = Some a"
    and "map_of (table_of conversionFactors d) B = Some b"
    and "v \<noteq> 0"
  shows "convert conversionFactors d (Number (Fin v)) A B =
           rounded 10 (Fin v * literal a / literal b)"
proof -
  have d: "d \<noteq> Temperature" "d \<noteq> Speed" using assms(1) by auto
  have n: "Fin v \<noteq> Fin 0" "Fin v \<noteq> NaN" using assms(4) by simp_all
  show ?thesis by (rule linear_steps [OF d assms(2,3) n])
qed

text \<open>One mile is 1.609344 kilometres.\<close>

theorem scale_domains_convert_witness:
  "Length \<in> {Length, Weight, Volume, Area, Pressure} \<and>
   map_of (table_of conversionFactors Length) ''mile'' = Some 1609.344 \<and>
   map_of (table_of conversionFactors Length) ''km'' = Some 1000 \<and>
   (1::real) \<noteq> 0 \<and>
   convert conversionFactors Length (Number (Fin 1)) ''mile'' ''km'' = literal 1.609344"
proof -
  have d: "Length \<in> {Length, Weight, Volume, Area, Pressure}" by simp
  have h1: "map_of (table_of conversionFactors Length) ''mile'' = Some 1609.344"
    by (simp add: conversionFactors_def)
  have h2: "map_of (table_of conversionFactors Length) ''km'' = Some 1000"
    by (simp add: conversionFactors_def)
  have n: "(1::real) \<noteq> 0" by simp
  have "convert conversionFactors Length (Number (Fin 1)) ''mile'' ''km'' =
      rounded 10 (Fin 1 * literal 1609.344 / literal 1000)"
    by (rule scale_domains_convert [OF d h1 h2 n])
  also have "\<dots> = literal 1.609344" by (rule steps_mile_km)
  finally have e: "convert conversionFactors Length (Number (Fin 1)) ''mile'' ''km'' =
      literal 1.609344" .
  show ?thesis
    by (rule conjI [OF d conjI [OF h1 conjI [OF h2 conjI [OF n e]]]])
qed

text \<open>
  C2. The speed table is ms = 1, kmh = 3.6, mph = 2.23694, knots = 1.94384, and for
  symbols \<open>A\<close> and \<open>B\<close> of it with factors \<open>a\<close> and \<open>b\<close> and a finite value \<open>v\<close> that is
  not zero, \<^verbatim>\<open>convertSpeed\<close> returns \<open>v / a * b\<close>, in the arithmetic of the doubles,
  rounded to 10 decimal places: the factors are used the other way round than in the
  five multiplicative domains.
\<close>

theorem convertSpeed_reciprocal:
  "speed conversionFactors =
     [(''ms'', 1), (''kmh'', 3.6), (''mph'', 2.23694), (''knots'', 1.94384)] \<and>
   (map_of (speed conversionFactors) A = Some a \<and> map_of (speed conversionFactors) B = Some b \<and>
    v \<noteq> 0 \<longrightarrow>
      convertSpeed conversionFactors (Number (Fin v)) A B =
        rounded 10 (Fin v / literal a * literal b))"
proof (intro conjI impI)
  show "speed conversionFactors =
     [(''ms'', 1), (''kmh'', 3.6), (''mph'', 2.23694), (''knots'', 1.94384)]"
    by (simp add: conversionFactors_def)
next
  assume h: "map_of (speed conversionFactors) A = Some a \<and>
    map_of (speed conversionFactors) B = Some b \<and> v \<noteq> 0"
  then have "Fin v \<noteq> Fin 0" "Fin v \<noteq> NaN" by simp_all
  with h show "convertSpeed conversionFactors (Number (Fin v)) A B =
      rounded 10 (Fin v / literal a * literal b)"
    by (intro speed_steps) simp_all
qed

text \<open>18 km/h are 5 m/s.\<close>

theorem convertSpeed_reciprocal_witness:
  "map_of (speed conversionFactors) ''kmh'' = Some 3.6 \<and>
   map_of (speed conversionFactors) ''ms'' = Some 1 \<and> (18::real) \<noteq> 0 \<and>
   convertSpeed conversionFactors (Number (Fin 18)) ''kmh'' ''ms'' = Fin 5"
proof -
  have h1: "map_of (speed conversionFactors) ''kmh'' = Some 3.6"
    by (simp add: conversionFactors_def)
  have h2: "map_of (speed conversionFactors) ''ms'' = Some 1"
    by (simp add: conversionFactors_def)
  have n: "(18::real) \<noteq> 0" by simp
  have "convertSpeed conversionFactors (Number (Fin 18)) ''kmh'' ''ms'' =
      rounded 10 (Fin 18 / literal 3.6 * literal 1)"
    by (rule convertSpeed_reciprocal [of "''kmh''" "3.6" "''ms''" 1 18, THEN conjunct2,
          THEN mp, OF conjI [OF h1 conjI [OF h2 n]]])
  also have "\<dots> = Fin 5" by (rule steps_kmh_ms)
  finally have e: "convertSpeed conversionFactors (Number (Fin 18)) ''kmh'' ''ms'' = Fin 5" .
  show ?thesis
    by (rule conjI [OF h1 conjI [OF h2 conjI [OF n e]]])
qed

text \<open>
  The results are those of the doubles, which the real quotient does not always
  share. Half a square millimetre is \<open>5 * 10^-11\<close> hectares; the quotient of the doubles
  lies below that and prints as \<^verbatim>\<open>0.0000000000\<close>. A thousand quarts come out as
  946352.9999999999 millilitres, a million km/h as 999999.9999999999 km/h, and 805 knots
  as 926.381132192 mph. A product beyond the largest double is \<^verbatim>\<open>Infinity\<close>.
\<close>

lemma steps_half_mm2_in_hectare:
  "rounded 10 (Fin (1 / 2) * literal 0.000001 / literal 10000) = Fin 0"
proof -
  have s1: "literal 0.000001 = Fin (4722366482869645 / 2 ^ 72)"
  proof -
    have "literal 0.000001 = fl (1 / 1000000)"
      by (simp add: literal_def)
    also have "\<dots> = Fin (4722366482869645 / 2 ^ 72)"
      by (rule fl_eval' [where e = "- 20" and n = "4722366482869645"]) simp_all
    finally show ?thesis .
  qed
  have s2: "Fin (1 / 2) * Fin (4722366482869645 / 2 ^ 72) = Fin (4722366482869645 / 2 ^ 73)"
  proof -
    have "Fin (1 / 2) * Fin (4722366482869645 / 2 ^ 72) = fl (4722366482869645 / 9444732965739290427392)"
      by (simp)
    also have "\<dots> = Fin (4722366482869645 / 2 ^ 73)"
      by (rule fl_eval' [where e = "- 21" and n = "4722366482869645"]) simp_all
    finally show ?thesis .
  qed
  have s3: "literal 10000 = Fin 10000"
  proof -
    have "literal 10000 = fl (10000)"
      by (simp add: literal_def)
    also have "\<dots> = Fin 10000"
      by (rule fl_eval' [where e = "13" and n = "5497558138880000"]) simp_all
    finally show ?thesis .
  qed
  have s4: "Fin (4722366482869645 / 2 ^ 73) / Fin 10000 = Fin (3868562622766813 / 2 ^ 86)"
  proof -
    have "Fin (4722366482869645 / 2 ^ 73) / Fin 10000 = fl (944473296573929 / 18889465931478580854784000)"
      by (simp)
    also have "\<dots> = Fin (3868562622766813 / 2 ^ 86)"
      by (rule fl_eval' [where e = "- 35" and n = "7737125245533626"]) simp_all
    finally show ?thesis .
  qed
  have s5: "rounded 10 (Fin (3868562622766813 / 2 ^ 86)) = Fin 0"
    by (simp add: rounded_def round_dp_def fl_zero)
  show ?thesis
    by (simp only: s1 s2 s3 s4 s5)
qed

lemma half_mm2_in_hectare:
  "convertArea conversionFactors (Number (Fin (1 / 2))) ''mm2'' ''hectare'' = Fin 0"
proof -
  have h1: "map_of (table_of conversionFactors Area) ''mm2'' = Some 0.000001"
    by (simp add: conversionFactors_def)
  have h2: "map_of (table_of conversionFactors Area) ''hectare'' = Some 10000"
    by (simp add: conversionFactors_def)
  have n: "Fin (1 / 2) \<noteq> Fin 0" "Fin (1 / 2) \<noteq> NaN" by simp_all
  have "convert conversionFactors Area (Number (Fin (1 / 2))) ''mm2'' ''hectare'' =
      rounded 10 (Fin (1 / 2) * literal 0.000001 / literal 10000)"
    by (rule linear_steps [OF _ _ h1 h2 n]) simp_all
  also have "\<dots> = Fin 0" by (rule steps_half_mm2_in_hectare)
  finally show ?thesis by (simp only: convert.simps)
qed

lemma steps_quarts_in_ml:
  "rounded 10 (Fin 1000 * literal 0.946353 / literal 0.001) = literal 946352.9999999999"
proof -
  have s1: "literal 0.946353 = Fin (4261995018160951 / 2 ^ 52)"
  proof -
    have "literal 0.946353 = fl (946353 / 1000000)"
      by (simp add: literal_def)
    also have "\<dots> = Fin (4261995018160951 / 2 ^ 52)"
      by (rule fl_eval' [where e = "- 1" and n = "8523990036321902"]) simp_all
    finally show ?thesis .
  qed
  have s2: "Fin 1000 * Fin (4261995018160951 / 2 ^ 52) = Fin (8324209019845607 / 2 ^ 43)"
  proof -
    have "Fin 1000 * Fin (4261995018160951 / 2 ^ 52) = fl (532749377270118875 / 562949953421312)"
      by (simp)
    also have "\<dots> = Fin (8324209019845607 / 2 ^ 43)"
      by (rule fl_eval' [where e = "9" and n = "8324209019845607"]) simp_all
    finally show ?thesis .
  qed
  have s3: "literal 0.001 = Fin (1152921504606847 / 2 ^ 60)"
  proof -
    have "literal 0.001 = fl (1 / 1000)"
      by (simp add: literal_def)
    also have "\<dots> = Fin (1152921504606847 / 2 ^ 60)"
      by (rule fl_eval' [where e = "- 10" and n = "4611686018427388"]) simp_all
    finally show ?thesis .
  qed
  have s4: "Fin (8324209019845607 / 2 ^ 43) / Fin (1152921504606847 / 2 ^ 60) = Fin (8129110370942975 / 2 ^ 33)"
  proof -
    have "Fin (8324209019845607 / 2 ^ 43) / Fin (1152921504606847 / 2 ^ 60) = fl (1091070724649203400704 / 1152921504606847)"
      by (simp)
    also have "\<dots> = Fin (8129110370942975 / 2 ^ 33)"
      by (rule fl_eval' [where e = "19" and n = "8129110370942975"]) simp_all
    finally show ?thesis .
  qed
  have s5: "rounded 10 (Fin (8129110370942975 / 2 ^ 33)) = Fin (8129110370942975 / 2 ^ 33)"
  proof -
    have "rounded 10 (Fin (8129110370942975 / 2 ^ 33)) = fl (9463529999999999 / 10000000000)"
      by (simp add: rounded_def round_dp_def)
    also have "\<dots> = Fin (8129110370942975 / 2 ^ 33)"
      by (rule fl_eval' [where e = "19" and n = "8129110370942975"]) simp_all
    finally show ?thesis .
  qed
  have s6: "literal 946352.9999999999 = Fin (8129110370942975 / 2 ^ 33)"
  proof -
    have "literal 946352.9999999999 = fl (9463529999999999 / 10000000000)"
      by (simp add: literal_def)
    also have "\<dots> = Fin (8129110370942975 / 2 ^ 33)"
      by (rule fl_eval' [where e = "19" and n = "8129110370942975"]) simp_all
    finally show ?thesis .
  qed
  show ?thesis
    by (simp only: s1 s2 s3 s4 s5 s6)
qed

lemma quarts_in_ml:
  "convertVolume conversionFactors (Number (Fin 1000)) ''quart'' ''ml'' = literal 946352.9999999999"
proof -
  have h1: "map_of (table_of conversionFactors Volume) ''quart'' = Some 0.946353"
    by (simp add: conversionFactors_def)
  have h2: "map_of (table_of conversionFactors Volume) ''ml'' = Some 0.001"
    by (simp add: conversionFactors_def)
  have n: "Fin 1000 \<noteq> Fin 0" "Fin 1000 \<noteq> NaN" by simp_all
  have "convert conversionFactors Volume (Number (Fin 1000)) ''quart'' ''ml'' =
      rounded 10 (Fin 1000 * literal 0.946353 / literal 0.001)"
    by (rule linear_steps [OF _ _ h1 h2 n]) simp_all
  also have "\<dots> = literal 946352.9999999999" by (rule steps_quarts_in_ml)
  finally show ?thesis by (simp only: convert.simps)
qed

lemma steps_kmh_in_kmh:
  "rounded 10 (Fin 1000000 / literal 3.6 * literal 3.6) = literal 999999.9999999999"
proof -
  have s1: "literal 3.6 = Fin (8106479329266893 / 2 ^ 51)"
  proof -
    have "literal 3.6 = fl (18 / 5)"
      by (simp add: literal_def)
    also have "\<dots> = Fin (8106479329266893 / 2 ^ 51)"
      by (rule fl_eval' [where e = "1" and n = "8106479329266893"]) simp_all
    finally show ?thesis .
  qed
  have s2: "Fin 1000000 / Fin (8106479329266893 / 2 ^ 51) = Fin (1193046471111111 / 2 ^ 32)"
  proof -
    have "Fin 1000000 / Fin (8106479329266893 / 2 ^ 51) = fl (2251799813685248000000 / 8106479329266893)"
      by (simp)
    also have "\<dots> = Fin (1193046471111111 / 2 ^ 32)"
      by (rule fl_eval' [where e = "18" and n = "4772185884444444"]) simp_all
    finally show ?thesis .
  qed
  have s3: "Fin (1193046471111111 / 2 ^ 32) * Fin (8106479329266893 / 2 ^ 51) = Fin (8589934591999999 / 2 ^ 33)"
  proof -
    have "Fin (1193046471111111 / 2 ^ 32) * Fin (8106479329266893 / 2 ^ 51) = fl (9671406556917032735538776748123 / 9671406556917033397649408)"
      by (simp)
    also have "\<dots> = Fin (8589934591999999 / 2 ^ 33)"
      by (rule fl_eval' [where e = "19" and n = "8589934591999999"]) simp_all
    finally show ?thesis .
  qed
  have s4: "rounded 10 (Fin (8589934591999999 / 2 ^ 33)) = Fin (8589934591999999 / 2 ^ 33)"
  proof -
    have "rounded 10 (Fin (8589934591999999 / 2 ^ 33)) = fl (9999999999999999 / 10000000000)"
      by (simp add: rounded_def round_dp_def)
    also have "\<dots> = Fin (8589934591999999 / 2 ^ 33)"
      by (rule fl_eval' [where e = "19" and n = "8589934591999999"]) simp_all
    finally show ?thesis .
  qed
  have s5: "literal 999999.9999999999 = Fin (8589934591999999 / 2 ^ 33)"
  proof -
    have "literal 999999.9999999999 = fl (9999999999999999 / 10000000000)"
      by (simp add: literal_def)
    also have "\<dots> = Fin (8589934591999999 / 2 ^ 33)"
      by (rule fl_eval' [where e = "19" and n = "8589934591999999"]) simp_all
    finally show ?thesis .
  qed
  show ?thesis
    by (simp only: s1 s2 s3 s4 s5)
qed

lemma kmh_in_kmh:
  "convertSpeed conversionFactors (Number (Fin 1000000)) ''kmh'' ''kmh'' = literal 999999.9999999999"
proof -
  have h1: "map_of (speed conversionFactors) ''kmh'' = Some 3.6"
    by (simp add: conversionFactors_def)
  have h2: "map_of (speed conversionFactors) ''kmh'' = Some 3.6"
    by (simp add: conversionFactors_def)
  have n: "Fin 1000000 \<noteq> Fin 0" "Fin 1000000 \<noteq> NaN" by simp_all
  have "convertSpeed conversionFactors (Number (Fin 1000000)) ''kmh'' ''kmh'' =
      rounded 10 (Fin 1000000 / literal 3.6 * literal 3.6)"
    by (rule speed_steps [OF h1 h2 n])
  also have "\<dots> = literal 999999.9999999999" by (rule steps_kmh_in_kmh)
  finally show ?thesis .
qed

lemma steps_knots_in_mph:
  "rounded 10 (Fin 805 / literal 1.94384 * literal 2.23694) = literal 926.381132192"
proof -
  have s1: "literal 1.94384 = Fin (8754277099667865 / 2 ^ 52)"
  proof -
    have "literal 1.94384 = fl (12149 / 6250)"
      by (simp add: literal_def)
    also have "\<dots> = Fin (8754277099667865 / 2 ^ 52)"
      by (rule fl_eval' [where e = "0" and n = "8754277099667865"]) simp_all
    finally show ?thesis .
  qed
  have s2: "Fin 805 / Fin (8754277099667865 / 2 ^ 52) = Fin (3642714875132439 / 2 ^ 43)"
  proof -
    have "Fin 805 / Fin (8754277099667865 / 2 ^ 52) = fl (725079540006649856 / 1750855419933573)"
      by (simp)
    also have "\<dots> = Fin (3642714875132439 / 2 ^ 43)"
      by (rule fl_eval' [where e = "8" and n = "7285429750264878"]) simp_all
    finally show ?thesis .
  qed
  have s3: "literal 2.23694 = Fin (5037141075225079 / 2 ^ 51)"
  proof -
    have "literal 2.23694 = fl (111847 / 50000)"
      by (simp add: literal_def)
    also have "\<dots> = Fin (5037141075225079 / 2 ^ 51)"
      by (rule fl_eval' [where e = "1" and n = "5037141075225079"]) simp_all
    finally show ?thesis .
  qed
  have s4: "Fin (3642714875132439 / 2 ^ 43) * Fin (5037141075225079 / 2 ^ 51) = Fin (8148534612778759 / 2 ^ 43)"
  proof -
    have "Fin (3642714875132439 / 2 ^ 43) * Fin (5037141075225079 / 2 ^ 51) = fl (18348868722863003173211859237681 / 19807040628566084398385987584)"
      by (simp)
    also have "\<dots> = Fin (8148534612778759 / 2 ^ 43)"
      by (rule fl_eval' [where e = "9" and n = "8148534612778759"]) simp_all
    finally show ?thesis .
  qed
  have s5: "rounded 10 (Fin (8148534612778759 / 2 ^ 43)) = Fin (4074267306389599 / 2 ^ 42)"
  proof -
    have "rounded 10 (Fin (8148534612778759 / 2 ^ 43)) = fl (28949410381 / 31250000)"
      by (simp add: rounded_def round_dp_def)
    also have "\<dots> = Fin (4074267306389599 / 2 ^ 42)"
      by (rule fl_eval' [where e = "9" and n = "8148534612779198"]) simp_all
    finally show ?thesis .
  qed
  have s6: "literal 926.381132192 = Fin (4074267306389599 / 2 ^ 42)"
  proof -
    have "literal 926.381132192 = fl (28949410381 / 31250000)"
      by (simp add: literal_def)
    also have "\<dots> = Fin (4074267306389599 / 2 ^ 42)"
      by (rule fl_eval' [where e = "9" and n = "8148534612779198"]) simp_all
    finally show ?thesis .
  qed
  show ?thesis
    by (simp only: s1 s2 s3 s4 s5 s6)
qed

lemma knots_in_mph:
  "convertSpeed conversionFactors (Number (Fin 805)) ''knots'' ''mph'' = literal 926.381132192"
proof -
  have h1: "map_of (speed conversionFactors) ''knots'' = Some 1.94384"
    by (simp add: conversionFactors_def)
  have h2: "map_of (speed conversionFactors) ''mph'' = Some 2.23694"
    by (simp add: conversionFactors_def)
  have n: "Fin 805 \<noteq> Fin 0" "Fin 805 \<noteq> NaN" by simp_all
  have "convertSpeed conversionFactors (Number (Fin 805)) ''knots'' ''mph'' =
      rounded 10 (Fin 805 / literal 1.94384 * literal 2.23694)"
    by (rule speed_steps [OF h1 h2 n])
  also have "\<dots> = literal 926.381132192" by (rule steps_knots_in_mph)
  finally show ?thesis .
qed

lemma overflow_km:
  "convertLength conversionFactors (Number (literal (10 ^ 306))) ''km'' ''km'' = Infinity"
proof -
  have l: "literal (10 ^ 306) = Fin (6413338752028713 * 2 ^ 964)"
    unfolding literal_def
    by (rule fl_eval' [where e = "1016" and n = "6413338752028713"]) simp_all
  have k: "literal 1000 = Fin 1000"
    unfolding literal_def
    by (rule fl_eval' [where e = "9" and n = "8796093022208000"]) simp_all
  have h: "map_of (table_of conversionFactors Length) ''km'' = Some 1000"
    by (simp add: conversionFactors_def)
  have n: "Fin (6413338752028713 * 2 ^ 964) \<noteq> Fin 0" "Fin (6413338752028713 * 2 ^ 964) \<noteq> NaN"
    by simp_all
  have "(2::real) ^ 1024 \<le> 6413338752028713 * 2 ^ 964 * 1000" by simp
  then have "fl (6413338752028713 * 2 ^ 964 * 1000) = Infinity" by (rule fl_overflow)
  then have p: "Fin (6413338752028713 * 2 ^ 964) * Fin 1000 = Infinity"
    by (simp only: times_jsnum.simps)
  have q: "Infinity / Fin 1000 = Infinity" by (simp add: signed_infinity_def)
  have r: "rounded 10 Infinity = Infinity" by (simp add: rounded_def)
  have "convert conversionFactors Length (Number (Fin (6413338752028713 * 2 ^ 964))) ''km'' ''km'' =
      rounded 10 (Fin (6413338752028713 * 2 ^ 964) * literal 1000 / literal 1000)"
    by (rule linear_steps [OF _ _ h h n]) simp_all
  also have "\<dots> = Infinity" by (simp only: k p q r)
  finally show ?thesis by (simp only: convert.simps l)
qed

section \<open>Temperature\<close>

text \<open>The double operations of the temperature conversions that follow.\<close>

lemma steps_freezing_F:
  "rounded 4 (Fin 0 * (Fin 9 / Fin 5) + Fin 32) = Fin 32"
proof -
  have s1: "Fin 9 / Fin 5 = Fin (8106479329266893 / 2 ^ 52)"
  proof -
    have "Fin 9 / Fin 5 = fl (9 / 5)"
      by (simp)
    also have "\<dots> = Fin (8106479329266893 / 2 ^ 52)"
      by (rule fl_eval' [where e = "0" and n = "8106479329266893"]) simp_all
    finally show ?thesis .
  qed
  have s2: "Fin 0 * Fin (8106479329266893 / 2 ^ 52) = Fin 0"
    by (simp add:  fl_zero)
  have s3: "Fin 0 + Fin 32 = Fin 32"
  proof -
    have "Fin 0 + Fin 32 = fl (32)"
      by (simp)
    also have "\<dots> = Fin 32"
      by (rule fl_eval' [where e = "5" and n = "4503599627370496"]) simp_all
    finally show ?thesis .
  qed
  have s4: "rounded 4 (Fin 32) = Fin 32"
  proof -
    have "rounded 4 (Fin 32) = fl (32)"
      by (simp add: rounded_def round_dp_def)
    also have "\<dots> = Fin 32"
      by (rule fl_eval' [where e = "5" and n = "4503599627370496"]) simp_all
    finally show ?thesis .
  qed
  show ?thesis
    by (simp only: s1 s2 s3 s4)
qed

lemma steps_boiling_F:
  "rounded 4 (Fin 100 * (Fin 9 / Fin 5) + Fin 32) = Fin 212"
proof -
  have s1: "Fin 9 / Fin 5 = Fin (8106479329266893 / 2 ^ 52)"
  proof -
    have "Fin 9 / Fin 5 = fl (9 / 5)"
      by (simp)
    also have "\<dots> = Fin (8106479329266893 / 2 ^ 52)"
      by (rule fl_eval' [where e = "0" and n = "8106479329266893"]) simp_all
    finally show ?thesis .
  qed
  have s2: "Fin 100 * Fin (8106479329266893 / 2 ^ 52) = Fin 180"
  proof -
    have "Fin 100 * Fin (8106479329266893 / 2 ^ 52) = fl (202661983231672325 / 1125899906842624)"
      by (simp)
    also have "\<dots> = Fin 180"
      by (rule fl_eval' [where e = "7" and n = "6333186975989760"]) simp_all
    finally show ?thesis .
  qed
  have s3: "Fin 180 + Fin 32 = Fin 212"
  proof -
    have "Fin 180 + Fin 32 = fl (212)"
      by (simp)
    also have "\<dots> = Fin 212"
      by (rule fl_eval' [where e = "7" and n = "7459086882832384"]) simp_all
    finally show ?thesis .
  qed
  have s4: "rounded 4 (Fin 212) = Fin 212"
  proof -
    have "rounded 4 (Fin 212) = fl (212)"
      by (simp add: rounded_def round_dp_def)
    also have "\<dots> = Fin 212"
      by (rule fl_eval' [where e = "7" and n = "7459086882832384"]) simp_all
    finally show ?thesis .
  qed
  show ?thesis
    by (simp only: s1 s2 s3 s4)
qed

lemma steps_freezing_K:
  "rounded 4 (Fin 0 + literal 273.15) = literal 273.15"
proof -
  have s1: "literal 273.15 = Fin (2402652809016115 / 2 ^ 43)"
  proof -
    have "literal 273.15 = fl (5463 / 20)"
      by (simp add: literal_def)
    also have "\<dots> = Fin (2402652809016115 / 2 ^ 43)"
      by (rule fl_eval' [where e = "8" and n = "4805305618032230"]) simp_all
    finally show ?thesis .
  qed
  have s2: "Fin 0 + Fin (2402652809016115 / 2 ^ 43) = Fin (2402652809016115 / 2 ^ 43)"
  proof -
    have "Fin 0 + Fin (2402652809016115 / 2 ^ 43) = fl (2402652809016115 / 8796093022208)"
      by (simp)
    also have "\<dots> = Fin (2402652809016115 / 2 ^ 43)"
      by (rule fl_eval' [where e = "8" and n = "4805305618032230"]) simp_all
    finally show ?thesis .
  qed
  have s3: "rounded 4 (Fin (2402652809016115 / 2 ^ 43)) = Fin (2402652809016115 / 2 ^ 43)"
  proof -
    have "rounded 4 (Fin (2402652809016115 / 2 ^ 43)) = fl (5463 / 20)"
      by (simp add: rounded_def round_dp_def)
    also have "\<dots> = Fin (2402652809016115 / 2 ^ 43)"
      by (rule fl_eval' [where e = "8" and n = "4805305618032230"]) simp_all
    finally show ?thesis .
  qed
  show ?thesis
    by (simp only: s1 s2 s3)
qed

lemma steps_freezing_C:
  "rounded 4 ((Fin 32 - Fin 32) * (Fin 5 / Fin 9)) = Fin 0"
proof -
  have s1: "Fin 32 - Fin 32 = Fin 0"
    by (simp add: minus_jsnum_def fl_zero)
  have s2: "Fin 5 / Fin 9 = Fin (2501999792983609 / 2 ^ 52)"
  proof -
    have "Fin 5 / Fin 9 = fl (5 / 9)"
      by (simp)
    also have "\<dots> = Fin (2501999792983609 / 2 ^ 52)"
      by (rule fl_eval' [where e = "- 1" and n = "5003999585967218"]) simp_all
    finally show ?thesis .
  qed
  have s3: "Fin 0 * Fin (2501999792983609 / 2 ^ 52) = Fin 0"
    by (simp add:  fl_zero)
  have s4: "rounded 4 (Fin 0) = Fin 0"
    by (simp add: rounded_def round_dp_def fl_zero)
  show ?thesis
    by (simp only: s1 s2 s3 s4)
qed

lemma steps_fifty_F:
  "rounded 4 ((Fin 50 - Fin 32) * (Fin 5 / Fin 9)) = Fin 10"
proof -
  have s1: "Fin 50 - Fin 32 = Fin 18"
  proof -
    have "Fin 50 - Fin 32 = fl (18)"
      by (simp add: minus_jsnum_def)
    also have "\<dots> = Fin 18"
      by (rule fl_eval' [where e = "4" and n = "5066549580791808"]) simp_all
    finally show ?thesis .
  qed
  have s2: "Fin 5 / Fin 9 = Fin (2501999792983609 / 2 ^ 52)"
  proof -
    have "Fin 5 / Fin 9 = fl (5 / 9)"
      by (simp)
    also have "\<dots> = Fin (2501999792983609 / 2 ^ 52)"
      by (rule fl_eval' [where e = "- 1" and n = "5003999585967218"]) simp_all
    finally show ?thesis .
  qed
  have s3: "Fin 18 * Fin (2501999792983609 / 2 ^ 52) = Fin 10"
  proof -
    have "Fin 18 * Fin (2501999792983609 / 2 ^ 52) = fl (22517998136852481 / 2251799813685248)"
      by (simp)
    also have "\<dots> = Fin 10"
      by (rule fl_eval' [where e = "3" and n = "5629499534213120"]) simp_all
    finally show ?thesis .
  qed
  have s4: "rounded 4 (Fin 10) = Fin 10"
  proof -
    have "rounded 4 (Fin 10) = fl (10)"
      by (simp add: rounded_def round_dp_def)
    also have "\<dots> = Fin 10"
      by (rule fl_eval' [where e = "3" and n = "5629499534213120"]) simp_all
    finally show ?thesis .
  qed
  show ?thesis
    by (simp only: s1 s2 s3 s4)
qed

lemma steps_small_F:
  "rounded 4 ((Fin (1 / 32) - Fin 32) * (Fin 5 / Fin 9) * (Fin 9 / Fin 5) + Fin 32) = literal 0.0312"
proof -
  have s1: "Fin (1 / 32) - Fin 32 = Fin (- (1023 / 32))"
  proof -
    have "Fin (1 / 32) - Fin 32 = fl (- (1023 / 32))"
      by (simp add: minus_jsnum_def)
    also have "\<dots> = Fin (- (1023 / 32))"
      by (rule fl_eval' [where e = "4" and n = "- 8998403161718784"]) simp_all
    finally show ?thesis .
  qed
  have s2: "Fin 5 / Fin 9 = Fin (2501999792983609 / 2 ^ 52)"
  proof -
    have "Fin 5 / Fin 9 = fl (5 / 9)"
      by (simp)
    also have "\<dots> = Fin (2501999792983609 / 2 ^ 52)"
      by (rule fl_eval' [where e = "- 1" and n = "5003999585967218"]) simp_all
    finally show ?thesis .
  qed
  have s3: "Fin (- (1023 / 32)) * Fin (2501999792983609 / 2 ^ 52) = Fin (- (4999112867621547 / 2 ^ 48))"
  proof -
    have "Fin (- (1023 / 32)) * Fin (2501999792983609 / 2 ^ 52) = fl (- (2559545788222232007 / 144115188075855872))"
      by (simp)
    also have "\<dots> = Fin (- (4999112867621547 / 2 ^ 48))"
      by (rule fl_eval' [where e = "4" and n = "- 4999112867621547"]) simp_all
    finally show ?thesis .
  qed
  have s4: "Fin 9 / Fin 5 = Fin (8106479329266893 / 2 ^ 52)"
  proof -
    have "Fin 9 / Fin 5 = fl (9 / 5)"
      by (simp)
    also have "\<dots> = Fin (8106479329266893 / 2 ^ 52)"
      by (rule fl_eval' [where e = "0" and n = "8106479329266893"]) simp_all
    finally show ?thesis .
  qed
  have s5: "Fin (- (4999112867621547 / 2 ^ 48)) * Fin (8106479329266893 / 2 ^ 52) = Fin (- (8998403161718785 / 2 ^ 48))"
  proof -
    have "Fin (- (4999112867621547 / 2 ^ 48)) * Fin (8106479329266893 / 2 ^ 52) = fl (- (40525205126046212381080080543471 / 1267650600228229401496703205376))"
      by (simp)
    also have "\<dots> = Fin (- (8998403161718785 / 2 ^ 48))"
      by (rule fl_eval' [where e = "4" and n = "- 8998403161718785"]) simp_all
    finally show ?thesis .
  qed
  have s6: "Fin (- (8998403161718785 / 2 ^ 48)) + Fin 32 = Fin (8796093022207 / 2 ^ 48)"
  proof -
    have "Fin (- (8998403161718785 / 2 ^ 48)) + Fin 32 = fl (8796093022207 / 281474976710656)"
      by (simp)
    also have "\<dots> = Fin (8796093022207 / 2 ^ 48)"
      by (rule fl_eval' [where e = "- 6" and n = "9007199254739968"]) simp_all
    finally show ?thesis .
  qed
  have s7: "rounded 4 (Fin (8796093022207 / 2 ^ 48)) = Fin (4496393867966703 / 2 ^ 57)"
  proof -
    have "rounded 4 (Fin (8796093022207 / 2 ^ 48)) = fl (39 / 1250)"
      by (simp add: rounded_def round_dp_def)
    also have "\<dots> = Fin (4496393867966703 / 2 ^ 57)"
      by (rule fl_eval' [where e = "- 6" and n = "8992787735933406"]) simp_all
    finally show ?thesis .
  qed
  have s8: "literal 0.0312 = Fin (4496393867966703 / 2 ^ 57)"
  proof -
    have "literal 0.0312 = fl (39 / 1250)"
      by (simp add: literal_def)
    also have "\<dots> = Fin (4496393867966703 / 2 ^ 57)"
      by (rule fl_eval' [where e = "- 6" and n = "8992787735933406"]) simp_all
    finally show ?thesis .
  qed
  show ?thesis
    by (simp only: s1 s2 s3 s4 s5 s6 s7 s8)
qed

text \<open>
  C3. \<^verbatim>\<open>convertTemperature\<close> has the four fixed points: 0 degrees Celsius are 32
  degrees Fahrenheit, 100 degrees Celsius are 212 degrees Fahrenheit, 0 degrees
  Celsius are 273.15 Kelvin, and 32 degrees Fahrenheit are 0 degrees Celsius.
\<close>

theorem temperature_fixed_points:
  "convertTemperature (Number (Fin 0)) ''celsius'' ''fahrenheit'' = Fin 32 \<and>
   convertTemperature (Number (Fin 100)) ''celsius'' ''fahrenheit'' = Fin 212 \<and>
   convertTemperature (Number (Fin 0)) ''celsius'' ''kelvin'' = literal 273.15 \<and>
   convertTemperature (Number (Fin 32)) ''fahrenheit'' ''celsius'' = Fin 0"
proof -
  have n: "Fin 0 \<noteq> NaN" "Fin 100 \<noteq> NaN" "Fin 32 \<noteq> NaN" by simp_all
  have a: "convertTemperature (Number (Fin 0)) ''celsius'' ''fahrenheit'' = Fin 32"
    by (simp only: convertTemperature_Number [OF n(1)] to_celsius_simps from_celsius_simps
        steps_freezing_F)
  have b: "convertTemperature (Number (Fin 100)) ''celsius'' ''fahrenheit'' = Fin 212"
    by (simp only: convertTemperature_Number [OF n(2)] to_celsius_simps from_celsius_simps
        steps_boiling_F)
  have c: "convertTemperature (Number (Fin 0)) ''celsius'' ''kelvin'' = literal 273.15"
    by (simp only: convertTemperature_Number [OF n(1)] to_celsius_simps from_celsius_simps
        steps_freezing_K)
  have d: "convertTemperature (Number (Fin 32)) ''fahrenheit'' ''celsius'' = Fin 0"
    by (simp only: convertTemperature_Number [OF n(3)] to_celsius_simps from_celsius_simps
        steps_freezing_C)
  show ?thesis
    by (rule conjI [OF a conjI [OF b conjI [OF c d]]])
qed

text \<open>
  C8. In \<^verbatim>\<open>convertTemperature\<close> a source symbol other than celsius, fahrenheit and
  kelvin is treated as celsius; a target symbol other than these yields the Celsius
  pivot value; and the result, of every value that is not \<^verbatim>\<open>NaN\<close>, is that of the two
  hops rounded to 4 decimal places.
\<close>

theorem temperature_defaults:
  "(fromUnit \<notin> {''celsius'', ''fahrenheit'', ''kelvin''} \<longrightarrow>
      convertTemperature v fromUnit toUnit = convertTemperature v ''celsius'' toUnit) \<and>
   (toUnit \<notin> {''celsius'', ''fahrenheit'', ''kelvin''} \<longrightarrow>
      convertTemperature v fromUnit toUnit = convertTemperature v fromUnit ''celsius'' \<and>
      (x \<noteq> NaN \<longrightarrow>
         convertTemperature (Number x) fromUnit toUnit = rounded 4 (to_celsius fromUnit x))) \<and>
   (x \<noteq> NaN \<longrightarrow>
      convertTemperature (Number x) fromUnit toUnit =
        rounded 4 (from_celsius toUnit (to_celsius fromUnit x)))"
proof (intro conjI impI)
  assume "fromUnit \<notin> {''celsius'', ''fahrenheit'', ''kelvin''}"
  then show "convertTemperature v fromUnit toUnit = convertTemperature v ''celsius'' toUnit"
    by (simp add: convertTemperature_def)
next
  assume "toUnit \<notin> {''celsius'', ''fahrenheit'', ''kelvin''}"
  then show "convertTemperature v fromUnit toUnit = convertTemperature v fromUnit ''celsius''"
    by (simp add: convertTemperature_def)
next
  assume "toUnit \<notin> {''celsius'', ''fahrenheit'', ''kelvin''}" and "x \<noteq> NaN"
  then show "convertTemperature (Number x) fromUnit toUnit = rounded 4 (to_celsius fromUnit x)"
    by (simp add: convertTemperature_Number from_celsius_def)
next
  assume "x \<noteq> NaN"
  then show "convertTemperature (Number x) fromUnit toUnit =
      rounded 4 (from_celsius toUnit (to_celsius fromUnit x))"
    by (rule convertTemperature_Number)
qed

text \<open>A value in the unknown unit rankine converts as the same value in celsius; 50
  degrees Fahrenheit to the unknown unit reaumur are the 10 degrees of the pivot; and
  a 32nd of a degree Fahrenheit, through the pivot and back, is 0.0312 degrees.\<close>

theorem temperature_defaults_witness:
  "''rankine'' \<notin> {''celsius'', ''fahrenheit'', ''kelvin''} \<and>
   ''reaumur'' \<notin> {''celsius'', ''fahrenheit'', ''kelvin''} \<and>
   Fin 50 \<noteq> NaN \<and> Fin (1 / 32) \<noteq> NaN \<and>
   convertTemperature (Number (Fin 20)) ''rankine'' ''kelvin'' =
     convertTemperature (Number (Fin 20)) ''celsius'' ''kelvin'' \<and>
   convertTemperature (Number (Fin 50)) ''fahrenheit'' ''reaumur'' = Fin 10 \<and>
   convertTemperature (Number (Fin (1 / 32))) ''fahrenheit'' ''fahrenheit'' = literal 0.0312"
proof -
  have a: "''rankine'' \<notin> {''celsius'', ''fahrenheit'', ''kelvin''}"
    and b: "''reaumur'' \<notin> {''celsius'', ''fahrenheit'', ''kelvin''}"
    by simp_all
  have n: "Fin 50 \<noteq> NaN" and m: "Fin (1 / 32) \<noteq> NaN" by simp_all
  note t1 = temperature_defaults [of "''rankine''" "Number (Fin 20)" "''kelvin''" "Fin 20"]
  note t2 = temperature_defaults [of "''fahrenheit''" "Number (Fin 50)" "''reaumur''" "Fin 50"]
  note t3 = temperature_defaults [of "''fahrenheit''" "Number (Fin (1 / 32))" "''fahrenheit''"
      "Fin (1 / 32)"]
  have e1: "convertTemperature (Number (Fin 20)) ''rankine'' ''kelvin'' =
      convertTemperature (Number (Fin 20)) ''celsius'' ''kelvin''"
    by (rule t1 [THEN conjunct1, THEN mp, OF a])
  have "convertTemperature (Number (Fin 50)) ''fahrenheit'' ''reaumur'' =
      rounded 4 (to_celsius ''fahrenheit'' (Fin 50))"
    by (rule t2 [THEN conjunct2, THEN conjunct1, THEN mp, OF b, THEN conjunct2, THEN mp, OF n])
  then have e2: "convertTemperature (Number (Fin 50)) ''fahrenheit'' ''reaumur'' = Fin 10"
    by (simp only: to_celsius_simps steps_fifty_F)
  have "convertTemperature (Number (Fin (1 / 32))) ''fahrenheit'' ''fahrenheit'' =
      rounded 4 (from_celsius ''fahrenheit'' (to_celsius ''fahrenheit'' (Fin (1 / 32))))"
    by (rule t3 [THEN conjunct2, THEN conjunct2, THEN mp, OF m])
  then have e3: "convertTemperature (Number (Fin (1 / 32))) ''fahrenheit'' ''fahrenheit'' =
      literal 0.0312"
    by (simp only: to_celsius_simps from_celsius_simps steps_small_F)
  show ?thesis
    by (rule conjI [OF a conjI [OF b conjI [OF n conjI [OF m conjI [OF e1 conjI [OF e2 e3]]]]]])
qed

section \<open>Unknown units and degenerate input\<close>

text \<open>
  C5 asks that a conversion with a unit symbol missing from the domain's table
  signals an error to the caller. One metre from the unknown unit furlong: the call
  returns, and what it returns is \<^verbatim>\<open>NaN\<close>.
\<close>

theorem unknown_unit_counterexample:
  "convertLength conversionFactors (Number (Fin 1)) ''furlong'' ''m'' = NaN"
  using convert_unknown [of Length conversionFactors "''furlong''" "''m''" "Number (Fin 1)"]
  by (simp add: conversionFactors_def falsy_def)

text \<open>
  C5, as the code has it. When the source or the target symbol is missing from the
  table of one of the six linear domains, the converter signals nothing: it returns
  \<^verbatim>\<open>NaN\<close>, or \<open>0\<close> when the value is a zero, \<^verbatim>\<open>NaN\<close> or absent.
\<close>

theorem unknown_unit_returns_NaN:
  assumes "d \<noteq> Temperature"
    and "map_of (table_of cf d) A = None \<or> map_of (table_of cf d) B = None"
  shows "convert cf d v A B = (if falsy v then Fin 0 else NaN)"
  using assms by (rule convert_unknown)

theorem unknown_unit_returns_NaN_witness:
  "Weight \<noteq> Temperature \<and>
   (map_of (table_of conversionFactors Weight) ''kg'' = None \<or>
    map_of (table_of conversionFactors Weight) ''stone'' = None) \<and>
   convert conversionFactors Weight (Number (Fin 2)) ''kg'' ''stone'' = NaN"
proof -
  have h: "map_of (table_of conversionFactors Weight) ''kg'' = None \<or>
    map_of (table_of conversionFactors Weight) ''stone'' = None"
    by (simp add: conversionFactors_def)
  show ?thesis
    using unknown_unit_returns_NaN [of Weight conversionFactors "''kg''" "''stone''"
        "Number (Fin 2)"] h
    by (simp add: falsy_def)
qed

text \<open>
  C6 says that a value that is not finite or is absent yields \<open>0\<close> in every converter.
  An infinite value passes both tests, \<^verbatim>\<open>!value\<close> and \<^verbatim>\<open>isNaN(value)\<close>, and comes out as
  an infinity, of the linear converters and of the temperature converter.
\<close>

theorem infinite_input_counterexample:
  "convertLength conversionFactors (Number Infinity) ''m'' ''km'' = Infinity \<and>
   convertTemperature (Number Infinity) ''celsius'' ''kelvin'' = Infinity"
proof -
  have h: "map_of (table_of conversionFactors Length) ''m'' = Some 1"
    "map_of (table_of conversionFactors Length) ''km'' = Some 1000"
    by (simp_all add: conversionFactors_def)
  obtain a' b' where ab: "literal 1 = Fin a'" "0 < a'" "literal 1000 = Fin b'" "0 < b'"
    using literal_factor [OF h(1)] literal_factor [OF h(2)] by blast
  have n: "Infinity \<noteq> Fin 0" "Infinity \<noteq> NaN" by simp_all
  have "convert conversionFactors Length (Number Infinity) ''m'' ''km'' =
      rounded 10 (Infinity * literal 1 / literal 1000)"
    by (rule linear_steps [OF _ _ h n]) simp_all
  also have "\<dots> = rounded 10 (Infinity * Fin a' / Fin b')" by (simp only: ab)
  also have "\<dots> = Infinity" using ab(2,4) by (simp add: rounded_def signed_infinity_def)
  finally have l: "convertLength conversionFactors (Number Infinity) ''m'' ''km'' = Infinity"
    by (simp only: convert.simps)
  obtain k where k: "literal 273.15 = Fin k"
    using literal_near [of "273.15"] by auto
  have "convertTemperature (Number Infinity) ''celsius'' ''kelvin'' =
      rounded 4 (from_celsius ''kelvin'' (to_celsius ''celsius'' Infinity))"
    by (rule convertTemperature_Number) simp
  also have "\<dots> = rounded 4 (Infinity + Fin k)"
    by (simp only: to_celsius_simps from_celsius_simps k)
  also have "\<dots> = Infinity" by (simp add: rounded_def)
  finally show ?thesis using l by (rule conjI [rotated])
qed

text \<open>
  C6, as the code has it. In every domain a value that is \<^verbatim>\<open>NaN\<close> or absent yields the
  result \<open>0\<close>, whatever the unit symbols are.
\<close>

theorem NaN_or_absent_yields_zero:
  "convert cf d (Number NaN) A B = Fin 0 \<and> convert cf d Undefined A B = Fin 0"
  by (cases d)
    (simp_all add: convertLength_def convertWeight_def convertVolume_def convertSpeed_def
      convertArea_def convertPressure_def convertTemperature_def isNaN_def falsy_def)

text \<open>
  C9. The test \<^verbatim>\<open>!value\<close> of the linear converters changes no result on a valid unit
  pair: converting \<open>0\<close> yields \<open>0\<close>, and the converter agrees with the one that
  sanitizes only \<^verbatim>\<open>NaN\<close>, on every value and so on every finite one.
\<close>

theorem falsy_test_harmless:
  assumes "d \<noteq> Temperature"
    and "map_of (table_of conversionFactors d) A = Some a"
    and "map_of (table_of conversionFactors d) B = Some b"
  shows "convert conversionFactors d (Number (Fin 0)) A B = Fin 0 \<and>
         convert conversionFactors d v A B = convert_NaN_only conversionFactors d v A B"
proof -
  have "convert conversionFactors d (Number (Fin 0)) A B = Fin 0"
    using convert_known [OF assms, of "Fin 0"] by simp
  then show ?thesis
    using convert_eq_NaN_only [OF assms] by simp
qed

theorem falsy_test_harmless_witness:
  "Area \<noteq> Temperature \<and>
   map_of (table_of conversionFactors Area) ''acre'' = Some 4046.86 \<and>
   map_of (table_of conversionFactors Area) ''hectare'' = Some 10000 \<and>
   convert conversionFactors Area (Number (Fin 0)) ''acre'' ''hectare'' = Fin 0 \<and>
   convert conversionFactors Area (Number (Fin 2)) ''acre'' ''hectare'' =
     convert_NaN_only conversionFactors Area (Number (Fin 2)) ''acre'' ''hectare''"
proof -
  have d: "Area \<noteq> Temperature" by simp
  have h1: "map_of (table_of conversionFactors Area) ''acre'' = Some 4046.86"
    by (simp add: conversionFactors_def)
  have h2: "map_of (table_of conversionFactors Area) ''hectare'' = Some 10000"
    by (simp add: conversionFactors_def)
  note t = falsy_test_harmless [OF d h1 h2, of "Number (Fin 2)"]
  show ?thesis
    by (rule conjI [OF d conjI [OF h1 conjI [OF h2 t]]])
qed

text \<open>
  C10. In the six linear converters the test of the value comes before the table is
  read: for the value \<open>0\<close> or \<^verbatim>\<open>NaN\<close> the result is \<open>0\<close> for arbitrary unit strings,
  symbols missing from the table included, and for an arbitrary registry, on which
  the result therefore does not depend.
\<close>

theorem degenerate_input_masks_units:
  assumes "d \<noteq> Temperature" and "v = Number (Fin 0) \<or> v = Number NaN"
  shows "convert cf d v fromUnit toUnit = Fin 0"
  using assms
  by (cases d)
    (auto simp: convertLength_def convertWeight_def convertVolume_def convertSpeed_def
      convertArea_def convertPressure_def falsy_def)

text \<open>Zero furlongs in parsecs, and zero metres under a registry of empty tables.\<close>

theorem degenerate_input_masks_units_witness:
  "Length \<noteq> Temperature \<and> (Number (Fin 0) = Number (Fin 0) \<or> Number (Fin 0) = Number NaN) \<and>
   map_of (table_of conversionFactors Length) ''furlong'' = None \<and>
   convert conversionFactors Length (Number (Fin 0)) ''furlong'' ''parsec'' = Fin 0 \<and>
   convert \<lparr>length_factors = [], weight = [], volume = [], speed = [], area = [],
            pressure = []\<rparr> Length (Number (Fin 0)) ''m'' ''km'' = Fin 0"
  using degenerate_input_masks_units [of Length "Number (Fin 0)" conversionFactors
      "''furlong''" "''parsec''"]
    degenerate_input_masks_units [of Length "Number (Fin 0)" "\<lparr>length_factors = [],
      weight = [], volume = [], speed = [], area = [], pressure = []\<rparr>" "''m''" "''km''"]
  by (simp add: conversionFactors_def)

section \<open>Round trips\<close>

text \<open>Rounding to \<open>f\<close> decimal places moves a value by at most half a unit of the last
  place.\<close>

lemma round_dp_error: "\<bar>round_dp f r - r\<bar> \<le> 1 / (2 * 10 ^ f)"
proof -
  define y where "y = \<bar>r\<bar> * 10 ^ f"
  define n where "n = real_of_int \<lfloor>y + 1 / 2\<rfloor>"
  have p: "(0::real) < 10 ^ f" by simp
  have "n \<le> y + 1 / 2" "y + 1 / 2 < n + 1"
    unfolding n_def by linarith+
  then have b: "\<bar>n - y\<bar> \<le> 1 / 2" by linarith
  have "n / 10 ^ f - \<bar>r\<bar> = (n - y) / 10 ^ f"
    by (simp add: y_def diff_divide_distrib)
  then have "\<bar>n / 10 ^ f - \<bar>r\<bar>\<bar> = \<bar>n - y\<bar> / 10 ^ f"
    by (simp only: abs_divide) simp
  also have "\<dots> \<le> (1 / 2) / 10 ^ f"
    using b p by (intro divide_right_mono) simp_all
  finally have e: "\<bar>n / 10 ^ f - \<bar>r\<bar>\<bar> \<le> 1 / (2 * 10 ^ f)" by simp
  show ?thesis
  proof (cases "r < 0")
    case True
    then have "round_dp f r - r = - (n / 10 ^ f - \<bar>r\<bar>)"
      by (simp add: round_dp_def n_def y_def)
    then show ?thesis using e by simp
  next
    case False
    then have "round_dp f r - r = n / 10 ^ f - \<bar>r\<bar>"
      by (simp add: round_dp_def n_def y_def)
    then show ?thesis using e by simp
  qed
qed

text \<open>One rounding of a value of moderate size: the relative error is at most
  \<open>2^-53\<close>, with an absolute term for the subnormal range.\<close>

lemma fl_error_small:
  assumes "\<bar>x\<bar> \<le> 10 ^ 60"
  shows "\<exists>y. fl x = Fin y \<and> \<bar>y - x\<bar> \<le> \<bar>x\<bar> / 2 ^ 53 + 1 / 10 ^ 40"
proof -
  have "\<bar>x\<bar> < 2 ^ 1023" by (rule le_less_trans [OF assms]) simp
  then obtain y where y: "fl x = Fin y" "\<bar>y - x\<bar> \<le> \<bar>x\<bar> / 2 ^ 53 + 1 / 2 ^ 1075"
    using fl_error by blast
  have "(1::real) / 2 ^ 1075 \<le> 1 / 10 ^ 40" by simp
  with y(2) have "\<bar>y - x\<bar> \<le> \<bar>x\<bar> / 2 ^ 53 + 1 / 10 ^ 40" by linarith
  with y(1) show ?thesis by blast
qed

lemma abs_via: "\<bar>s - t\<bar> \<le> \<bar>s - m\<bar> + \<bar>m - t\<bar>" for s t m :: real
  by linarith

lemma abs_le_via: "\<bar>s\<bar> \<le> \<bar>t\<bar> + \<bar>s - t\<bar>" for s t :: real
  by linarith

text \<open>One conversion on the reals under the doubles: a product by \<open>p\<close>, a product by \<open>c\<close>,
  the rounding to 10 decimal places and the reading of the decimal.\<close>

lemma one_way:
  fixes v p c :: real
  assumes p: "0 < p" "p \<le> 2 * 10 ^ 6" and c: "0 < c" "c \<le> 2 * 10 ^ 6"
    and v: "\<bar>v\<bar> \<le> 10 ^ 30"
  shows "\<exists>x y z. fl (v * p) = Fin x \<and> fl (x * c) = Fin y \<and> fl (round_dp 10 y) = Fin z \<and>
           \<bar>z - v * p * c\<bar> \<le> \<bar>v * p * c\<bar> * (34 / 10 ^ 17) + 500001 / 10 ^ 16"
proof -
  define w where "w = v * p * c"
  define A where "A = \<bar>w\<bar>"
  have vp: "\<bar>v * p\<bar> \<le> 10 ^ 30 * (2 * 10 ^ 6)"
    unfolding abs_mult using v p by (intro mult_mono) simp_all
  then have "\<bar>v * p\<bar> \<le> 10 ^ 60" by simp
  then obtain x where x: "fl (v * p) = Fin x"
    and ex: "\<bar>x - v * p\<bar> \<le> \<bar>v * p\<bar> / 2 ^ 53 + 1 / 10 ^ 40"
    using fl_error_small by blast
  have A_eq: "A = \<bar>v * p\<bar> * c" using c by (simp add: A_def w_def abs_mult)
  have A_le: "A \<le> 10 ^ 30 * (2 * 10 ^ 6) * (2 * 10 ^ 6)"
    unfolding A_eq using vp c by (intro mult_mono) simp_all
  have A0: "0 \<le> A" by (simp add: A_def)
  define D1 where "D1 = \<bar>x * c - w\<bar>"
  have "x * c - w = (x - v * p) * c" by (simp add: w_def left_diff_distrib)
  then have "D1 = \<bar>x - v * p\<bar> * \<bar>c\<bar>" by (simp only: D1_def abs_mult)
  also have "\<dots> = \<bar>x - v * p\<bar> * c" using c by simp
  also have "\<dots> \<le> (\<bar>v * p\<bar> / 2 ^ 53 + 1 / 10 ^ 40) * c"
    using ex c by (intro mult_right_mono) simp_all
  also have "\<dots> = A / 2 ^ 53 + c / 10 ^ 40"
    by (simp add: A_eq distrib_right)
  also have "\<dots> \<le> A / 2 ^ 53 + 2 / 10 ^ 34"
    using c by simp
  finally have d1: "D1 \<le> A / 2 ^ 53 + 2 / 10 ^ 34" .
  define B where "B = \<bar>x * c\<bar>"
  have b: "B \<le> A + D1" unfolding B_def A_def D1_def by (rule abs_le_via)
  have "B \<le> 10 ^ 60" using b d1 A_le A0 by simp
  then obtain y where y: "fl (x * c) = Fin y"
    and ey: "\<bar>y - x * c\<bar> \<le> B / 2 ^ 53 + 1 / 10 ^ 40"
    unfolding B_def using fl_error_small by blast
  define r where "r = round_dp 10 y"
  define D3 where "D3 = \<bar>y - w\<bar>"
  have d3: "D3 \<le> (B / 2 ^ 53 + 1 / 10 ^ 40) + D1"
    unfolding D3_def D1_def using abs_via [of y w "x * c"] ey by linarith
  define D5 where "D5 = \<bar>r - w\<bar>"
  have er: "\<bar>r - y\<bar> \<le> 5 / 10 ^ 11"
    using round_dp_error [of 10 y] by (simp add: r_def)
  have d5: "D5 \<le> 5 / 10 ^ 11 + D3"
    unfolding D5_def D3_def using abs_via [of r w y] er by linarith
  define C where "C = \<bar>r\<bar>"
  have cc: "C \<le> A + D5" unfolding C_def A_def D5_def by (rule abs_le_via)
  have "C \<le> 10 ^ 60" using cc d5 d3 b d1 A_le A0 by simp
  then obtain z where z: "fl r = Fin z"
    and ez: "\<bar>z - r\<bar> \<le> C / 2 ^ 53 + 1 / 10 ^ 40"
    unfolding C_def using fl_error_small by blast
  have "\<bar>z - w\<bar> \<le> (C / 2 ^ 53 + 1 / 10 ^ 40) + D5"
    unfolding D5_def using abs_via [of z w r] ez by linarith
  then have "\<bar>z - w\<bar> \<le> A * (34 / 10 ^ 17) + 500001 / 10 ^ 16"
    using cc d5 d3 b d1 A0 by simp
  then show ?thesis
    using x y z unfolding r_def w_def A_def by blast
qed

text \<open>A conversion and the conversion back, on the reals under the doubles. The
  second pair of factors undoes the first; the rounding to 10 decimal places of the
  way there is scaled by the second pair on the way back.\<close>

lemma two_way:
  fixes v p c p2 c2 :: real
  assumes p: "0 < p" "p \<le> 2 * 10 ^ 6" and c: "0 < c" "c \<le> 2 * 10 ^ 6"
    and p2: "0 < p2" "p2 \<le> 2 * 10 ^ 6" and c2: "0 < c2" "c2 \<le> 2 * 10 ^ 6"
    and inv: "p * c * (p2 * c2) = 1"
    and v: "\<bar>v\<bar> \<le> 10 ^ 15"
  shows "\<exists>x y z x2 y2 z2.
           fl (v * p) = Fin x \<and> fl (x * c) = Fin y \<and> fl (round_dp 10 y) = Fin z \<and>
           fl (z * p2) = Fin x2 \<and> fl (x2 * c2) = Fin y2 \<and> fl (round_dp 10 y2) = Fin z2 \<and>
           \<bar>z2 - v\<bar> \<le> \<bar>v\<bar> * (69 / 10 ^ 17) +
                        500001 / 10 ^ 16 * (1 + p2 * c2 * (1 + 34 / 10 ^ 17))"
proof -
  define G where "G = p2 * c2"
  define w where "w = v * p * c"
  define A where "A = \<bar>v\<bar>"
  have G: "0 < G" using p2 c2 by (simp add: G_def)
  have A0: "0 \<le> A" by (simp add: A_def)
  have A15: "A \<le> 10 ^ 15" using v by (simp add: A_def)
  have "\<bar>v\<bar> \<le> 10 ^ 30" using v by simp
  from one_way [OF p c this]
  obtain x y z where f: "fl (v * p) = Fin x" "fl (x * c) = Fin y" "fl (round_dp 10 y) = Fin z"
    and e1: "\<bar>z - w\<bar> \<le> \<bar>w\<bar> * (34 / 10 ^ 17) + 500001 / 10 ^ 16"
    unfolding w_def by blast
  have "\<bar>w\<bar> = \<bar>v\<bar> * p * c" using p c by (simp add: w_def abs_mult)
  also have "\<dots> \<le> 10 ^ 15 * (2 * 10 ^ 6) * (2 * 10 ^ 6)"
    using v p c by (intro mult_mono) simp_all
  finally have wb: "\<bar>w\<bar> \<le> 4 * 10 ^ 27" by simp
  have "\<bar>z\<bar> \<le> \<bar>w\<bar> + \<bar>z - w\<bar>" by (rule abs_le_via)
  with e1 wb have "\<bar>z\<bar> \<le> 10 ^ 30" by simp
  from one_way [OF p2 c2 this]
  obtain x2 y2 z2 where b: "fl (z * p2) = Fin x2" "fl (x2 * c2) = Fin y2"
      "fl (round_dp 10 y2) = Fin z2"
    and e2: "\<bar>z2 - z * p2 * c2\<bar> \<le> \<bar>z * p2 * c2\<bar> * (34 / 10 ^ 17) + 500001 / 10 ^ 16"
    by blast
  define w2 where "w2 = z * G"
  have e2': "\<bar>z2 - w2\<bar> \<le> \<bar>w2\<bar> * (34 / 10 ^ 17) + 500001 / 10 ^ 16"
    using e2 by (simp add: w2_def G_def mult.assoc)
  have wG: "w * G = v"
  proof -
    have "w * G = v * (p * c * (p2 * c2))" by (simp add: w_def G_def mult.assoc)
    then show ?thesis by (simp only: inv mult_1_right)
  qed
  have "w2 - v = (z - w) * G" by (simp add: w2_def left_diff_distrib wG)
  then have "\<bar>w2 - v\<bar> = \<bar>z - w\<bar> * \<bar>G\<bar>" by (simp only: abs_mult)
  also have "\<dots> = \<bar>z - w\<bar> * G" using G by simp
  also have "\<dots> \<le> (\<bar>w\<bar> * (34 / 10 ^ 17) + 500001 / 10 ^ 16) * G"
    using e1 G by (intro mult_right_mono) simp_all
  also have "\<dots> = \<bar>w\<bar> * G * (34 / 10 ^ 17) + 500001 / 10 ^ 16 * G"
    by (simp add: algebra_simps)
  also have "\<bar>w\<bar> * G = A"
  proof -
    have "\<bar>w\<bar> * G = \<bar>w\<bar> * \<bar>G\<bar>" using G by simp
    also have "\<dots> = \<bar>w * G\<bar>" by (simp only: abs_mult)
    finally show ?thesis by (simp only: wG A_def)
  qed
  finally have d1: "\<bar>w2 - v\<bar> \<le> A * (34 / 10 ^ 17) + 500001 / 10 ^ 16 * G" .
  define E1 where "E1 = \<bar>w2 - v\<bar>"
  define W2 where "W2 = \<bar>w2\<bar>"
  define E2 where "E2 = \<bar>z2 - w2\<bar>"
  have i1: "E1 \<le> A * (34 / 10 ^ 17) + 500001 / 10 ^ 16 * G" using d1 by (simp only: E1_def)
  have i2: "W2 \<le> A + E1" unfolding W2_def A_def E1_def by (rule abs_le_via)
  have i3: "E2 \<le> W2 * (34 / 10 ^ 17) + 500001 / 10 ^ 16" using e2' by (simp only: E2_def W2_def)
  have i4: "\<bar>z2 - v\<bar> \<le> E2 + E1" unfolding E2_def E1_def by (rule abs_via)
  have "\<bar>z2 - v\<bar> \<le> A * (69 / 10 ^ 17) + 500001 / 10 ^ 16 * (1 + G * (1 + 34 / 10 ^ 17))"
    using i1 i2 i3 i4 A0 G by (simp add: algebra_simps)
  then show ?thesis
    using f b unfolding A_def G_def by blast
qed

text \<open>The double of a factor of the registry, and the quotient of two such doubles.\<close>

lemma factor_double:
  assumes "map_of (table_of conversionFactors d) u = Some f"
  shows "\<exists>f'. literal f = Fin f' \<and> f * (1 - 2 / 2 ^ 53) \<le> f' \<and> f' \<le> f * (1 + 2 / 2 ^ 53) \<and>
           1 / 10 ^ 6 \<le> f \<and> f \<le> 10 ^ 6"
proof -
  note r = factor_range [OF assms]
  then have "1 / 10 ^ 6 \<le> f" "f \<le> 10 ^ 7" by simp_all
  then obtain f' where f': "literal f = Fin f'" "\<bar>f' - f\<bar> \<le> f / 2 ^ 53 + 1 / 2 ^ 1075"
    using literal_near [of f] by blast
  have "(1::real) / 2 ^ 1075 \<le> 1 / 10 ^ 6 / 2 ^ 53" by simp
  also have "\<dots> \<le> f / 2 ^ 53" using r by (intro divide_right_mono) simp_all
  finally have "\<bar>f' - f\<bar> \<le> 2 * (f / 2 ^ 53)" using f'(2) by linarith
  moreover define e where "e = 2 * (f / 2 ^ 53)"
  ultimately have "f - e \<le> f'" "f' \<le> f + e" by linarith+
  moreover have "f - e = f * (1 - 2 / 2 ^ 53)" "f + e = f * (1 + 2 / 2 ^ 53)"
    by (simp_all add: e_def algebra_simps)
  ultimately have "f * (1 - 2 / 2 ^ 53) \<le> f'" "f' \<le> f * (1 + 2 / 2 ^ 53)"
    by simp_all
  with f'(1) r show ?thesis by blast
qed

lemma quotient_near:
  fixes a b a' b' :: real
  assumes "0 < a" "0 < b"
    and "a * (1 - 2 / 2 ^ 53) \<le> a'" "b' \<le> b * (1 + 2 / 2 ^ 53)" "0 < b'"
  shows "b' / a' \<le> b / a * (1 + 1 / 10 ^ 15)"
proof -
  have lo: "0 < a * (1 - 2 / 2 ^ 53)" using assms(1) by simp
  have "b' / a' \<le> (b * (1 + 2 / 2 ^ 53)) / (a * (1 - 2 / 2 ^ 53))"
    using assms lo by (intro frac_le) simp_all
  also have "\<dots> = b / a * ((1 + 2 / 2 ^ 53) / (1 - 2 / 2 ^ 53))" by simp
  also have "\<dots> \<le> b / a * (1 + 1 / 10 ^ 15)"
    using assms by (intro mult_left_mono) simp_all
  finally show ?thesis .
qed

text \<open>The round trip between two symbols of a table: it is finite, and off the value
  by the two roundings to 10 decimal places, the first scaled by the quotient of the
  factors, and by the roundings of the six double operations and two decimals read.\<close>

lemma round_trip_error:
  assumes d: "d \<noteq> Temperature"
    and A: "map_of (table_of conversionFactors d) A = Some a"
    and B: "map_of (table_of conversionFactors d) B = Some b"
    and v: "\<bar>v\<bar> \<le> 10 ^ 15"
  shows "\<exists>r. round_trip conversionFactors d (Number (Fin v)) A B = Fin r \<and>
           \<bar>r - v\<bar> \<le> 51 / 10 ^ 12 * (1 + (if d = Speed then a / b else b / a)) + \<bar>v\<bar> / 10 ^ 15"
proof -
  obtain a' where a': "literal a = Fin a'" "a * (1 - 2 / 2 ^ 53) \<le> a'"
      "a' \<le> a * (1 + 2 / 2 ^ 53)" "1 / 10 ^ 6 \<le> a" "a \<le> 10 ^ 6"
    using factor_double [OF A] by blast
  obtain b' where b': "literal b = Fin b'" "b * (1 - 2 / 2 ^ 53) \<le> b'"
      "b' \<le> b * (1 + 2 / 2 ^ 53)" "1 / 10 ^ 6 \<le> b" "b \<le> 10 ^ 6"
    using factor_double [OF B] by blast
  have apos: "0 < a" "0 < b" using a'(4) b'(4) by simp_all
  have alo: "1 / (2 * 10 ^ 6) \<le> a'"
  proof -
    have "(1::real) / (2 * 10 ^ 6) \<le> 1 / 10 ^ 6 * (1 - 2 / 2 ^ 53)" by simp
    also have "\<dots> \<le> a * (1 - 2 / 2 ^ 53)" using a'(4) by (intro mult_right_mono) simp_all
    finally show ?thesis using a'(2) by linarith
  qed
  have blo: "1 / (2 * 10 ^ 6) \<le> b'"
  proof -
    have "(1::real) / (2 * 10 ^ 6) \<le> 1 / 10 ^ 6 * (1 - 2 / 2 ^ 53)" by simp
    also have "\<dots> \<le> b * (1 - 2 / 2 ^ 53)" using b'(4) by (intro mult_right_mono) simp_all
    finally show ?thesis using b'(2) by linarith
  qed
  have ahi: "a' \<le> 2 * 10 ^ 6"
  proof -
    have "a * (1 + 2 / 2 ^ 53) \<le> 10 ^ 6 * (1 + 2 / 2 ^ 53)"
      using a'(5) by (intro mult_right_mono) simp_all
    also have "\<dots> \<le> 2 * 10 ^ 6" by simp
    finally show ?thesis using a'(3) by linarith
  qed
  have bhi: "b' \<le> 2 * 10 ^ 6"
  proof -
    have "b * (1 + 2 / 2 ^ 53) \<le> 10 ^ 6 * (1 + 2 / 2 ^ 53)"
      using b'(5) by (intro mult_right_mono) simp_all
    also have "\<dots> \<le> 2 * 10 ^ 6" by simp
    finally show ?thesis using b'(3) by linarith
  qed
  have pa: "0 < a'" using alo by (rule less_le_trans [rotated]) simp
  have pb: "0 < b'" using blo by (rule less_le_trans [rotated]) simp
  have ia: "0 < 1 / a'" "1 / a' \<le> 2 * 10 ^ 6"
  proof -
    show "0 < 1 / a'" using pa by simp
    have "1 / a' \<le> 1 / (1 / (2 * 10 ^ 6))"
      using alo by (intro divide_left_mono) simp_all
    then show "1 / a' \<le> 2 * 10 ^ 6" by simp
  qed
  have ib: "0 < 1 / b'" "1 / b' \<le> 2 * 10 ^ 6"
  proof -
    show "0 < 1 / b'" using pb by simp
    have "1 / b' \<le> 1 / (1 / (2 * 10 ^ 6))"
      using blo by (intro divide_left_mono) simp_all
    then show "1 / b' \<le> 2 * 10 ^ 6" by simp
  qed
  define q where "q = (if d = Speed then a / b else b / a)"
  define q' where "q' = (if d = Speed then a' / b' else b' / a')"
  have q0: "0 < q" using apos by (simp add: q_def)
  have qq: "q' \<le> q * (1 + 1 / 10 ^ 15)"
  proof (cases "d = Speed")
    case True
    then show ?thesis
      using quotient_near [OF apos(2) apos(1) b'(2) a'(3) pa] by (simp only: q_def q'_def if_True simp_thms)
  next
    case False
    then show ?thesis
      using quotient_near [OF apos a'(2) b'(3) pb] by (simp only: q_def q'_def if_False simp_thms)
  qed
  have fin: "500001 / 10 ^ 16 * (1 + q' * (1 + 34 / 10 ^ 17)) \<le> 51 / 10 ^ 12 * (1 + q)"
    using qq q0 by (simp add: algebra_simps)
  have "\<exists>z z2. convert conversionFactors d (Number (Fin v)) A B = Fin z \<and>
          convert conversionFactors d (Number (Fin z)) B A = Fin z2 \<and>
          \<bar>z2 - v\<bar> \<le> \<bar>v\<bar> * (69 / 10 ^ 17) + 500001 / 10 ^ 16 * (1 + q' * (1 + 34 / 10 ^ 17))"
  proof (cases "d = Speed")
    case True
    have inv: "1 / a' * b' * (1 / b' * a') = 1" using pa pb by simp
    from two_way [OF ia pb bhi ib pa ahi inv v]
    obtain x y z x2 y2 z2 where s:
      "fl (v * (1 / a')) = Fin x" "fl (x * b') = Fin y" "fl (round_dp 10 y) = Fin z"
      "fl (z * (1 / b')) = Fin x2" "fl (x2 * a') = Fin y2" "fl (round_dp 10 y2) = Fin z2"
      and e: "\<bar>z2 - v\<bar> \<le> \<bar>v\<bar> * (69 / 10 ^ 17) +
                 500001 / 10 ^ 16 * (1 + 1 / b' * a' * (1 + 34 / 10 ^ 17))"
      by blast
    have "convert conversionFactors d (Number (Fin v)) A B = Fin z"
      using convert_formula [OF d A B, of v] steps_speed [OF pa pb s(1-3)] True
      by (simp add: a'(1) b'(1))
    moreover have "convert conversionFactors d (Number (Fin z)) B A = Fin z2"
      using convert_formula [OF d B A, of z] steps_speed [OF pb pa s(4-6)] True
      by (simp add: a'(1) b'(1))
    moreover have "1 / b' * a' = q'" using True by (simp add: q'_def)
    ultimately show ?thesis using e by auto
  next
    case False
    have inv: "a' * (1 / b') * (b' * (1 / a')) = 1" using pa pb by simp
    from two_way [OF pa ahi ib pb bhi ia inv v]
    obtain x y z x2 y2 z2 where s:
      "fl (v * a') = Fin x" "fl (x * (1 / b')) = Fin y" "fl (round_dp 10 y) = Fin z"
      "fl (z * b') = Fin x2" "fl (x2 * (1 / a')) = Fin y2" "fl (round_dp 10 y2) = Fin z2"
      and e: "\<bar>z2 - v\<bar> \<le> \<bar>v\<bar> * (69 / 10 ^ 17) +
                 500001 / 10 ^ 16 * (1 + b' * (1 / a') * (1 + 34 / 10 ^ 17))"
      by blast
    have "convert conversionFactors d (Number (Fin v)) A B = Fin z"
      using convert_formula [OF d A B, of v] steps_linear [OF pa pb s(1-3)] False
      by (simp add: a'(1) b'(1))
    moreover have "convert conversionFactors d (Number (Fin z)) B A = Fin z2"
      using convert_formula [OF d B A, of z] steps_linear [OF pb pa s(4-6)] False
      by (simp add: a'(1) b'(1))
    moreover have "b' * (1 / a') = q'" using False by (simp add: q'_def)
    ultimately show ?thesis using e by auto
  qed
  then obtain z z2 where c: "convert conversionFactors d (Number (Fin v)) A B = Fin z"
      "convert conversionFactors d (Number (Fin z)) B A = Fin z2"
    and e: "\<bar>z2 - v\<bar> \<le> \<bar>v\<bar> * (69 / 10 ^ 17) +
              500001 / 10 ^ 16 * (1 + q' * (1 + 34 / 10 ^ 17))"
    by blast
  have rt: "round_trip conversionFactors d (Number (Fin v)) A B = Fin z2"
    by (simp only: round_trip_def c)
  have "\<bar>v\<bar> * (69 / 10 ^ 17) \<le> \<bar>v\<bar> / 10 ^ 15" by simp
  with e fin have "\<bar>z2 - v\<bar> \<le> 51 / 10 ^ 12 * (1 + q) + \<bar>v\<bar> / 10 ^ 15" by linarith
  with rt show ?thesis unfolding q_def by blast
qed

text \<open>The double operations of two round trips: of 1.23456789 mm through kilometres,
  and of 9999999 lb through pounds.\<close>

lemma double_of_input: "literal 1.23456789 = Fin (5559999489367579 / 2 ^ 52)"
proof -
  have "literal 1.23456789 = fl (123456789 / 100000000)"
    by (simp add: literal_def)
  also have "\<dots> = Fin (5559999489367579 / 2 ^ 52)"
    by (rule fl_eval' [where e = "0" and n = "5559999489367579"]) simp_all
  finally show ?thesis .
qed

lemma steps_mm_km:
  "rounded 10 (Fin (5559999489367579 / 2 ^ 52) * literal 0.001 / literal 1000) = literal 0.0000012346"
proof -
  have s1: "literal 0.001 = Fin (1152921504606847 / 2 ^ 60)"
  proof -
    have "literal 0.001 = fl (1 / 1000)"
      by (simp add: literal_def)
    also have "\<dots> = Fin (1152921504606847 / 2 ^ 60)"
      by (rule fl_eval' [where e = "- 10" and n = "4611686018427388"]) simp_all
    finally show ?thesis .
  qed
  have s2: "Fin (5559999489367579 / 2 ^ 52) * Fin (1152921504606847 / 2 ^ 60) = Fin (5693439477112401 / 2 ^ 62)"
  proof -
    have "Fin (5559999489367579 / 2 ^ 52) * Fin (1152921504606847 / 2 ^ 60) = fl (6410242976894970199643063213413 / 5192296858534827628530496329220096)"
      by (simp)
    also have "\<dots> = Fin (5693439477112401 / 2 ^ 62)"
      by (rule fl_eval' [where e = "- 10" and n = "5693439477112401"]) simp_all
    finally show ?thesis .
  qed
  have s3: "literal 1000 = Fin 1000"
  proof -
    have "literal 1000 = fl (1000)"
      by (simp add: literal_def)
    also have "\<dots> = Fin 1000"
      by (rule fl_eval' [where e = "9" and n = "8796093022208000"]) simp_all
    finally show ?thesis .
  qed
  have s4: "Fin (5693439477112401 / 2 ^ 62) / Fin 1000 = Fin (5830082024563099 / 2 ^ 72)"
  proof -
    have "Fin (5693439477112401 / 2 ^ 62) / Fin 1000 = fl (5693439477112401 / 4611686018427387904000)"
      by (simp)
    also have "\<dots> = Fin (5830082024563099 / 2 ^ 72)"
      by (rule fl_eval' [where e = "- 20" and n = "5830082024563099"]) simp_all
    finally show ?thesis .
  qed
  have s5: "rounded 10 (Fin (5830082024563099 / 2 ^ 72)) = Fin (364389603734429 / 2 ^ 68)"
  proof -
    have "rounded 10 (Fin (5830082024563099 / 2 ^ 72)) = fl (6173 / 5000000000)"
      by (simp add: rounded_def round_dp_def)
    also have "\<dots> = Fin (364389603734429 / 2 ^ 68)"
      by (rule fl_eval' [where e = "- 20" and n = "5830233659750864"]) simp_all
    finally show ?thesis .
  qed
  have s6: "literal 0.0000012346 = Fin (364389603734429 / 2 ^ 68)"
  proof -
    have "literal 0.0000012346 = fl (6173 / 5000000000)"
      by (simp add: literal_def)
    also have "\<dots> = Fin (364389603734429 / 2 ^ 68)"
      by (rule fl_eval' [where e = "- 20" and n = "5830233659750864"]) simp_all
    finally show ?thesis .
  qed
  show ?thesis
    by (simp only: s1 s2 s3 s4 s5 s6)
qed

lemma double_of_km: "literal 0.0000012346 = Fin (364389603734429 / 2 ^ 68)"
proof -
  have "literal 0.0000012346 = fl (6173 / 5000000000)"
    by (simp add: literal_def)
  also have "\<dots> = Fin (364389603734429 / 2 ^ 68)"
    by (rule fl_eval' [where e = "- 20" and n = "5830233659750864"]) simp_all
  finally show ?thesis .
qed

lemma steps_km_mm:
  "rounded 10 (Fin (364389603734429 / 2 ^ 68) * literal 1000 / literal 0.001) = literal 1.2346"
proof -
  have s1: "literal 1000 = Fin 1000"
  proof -
    have "literal 1000 = fl (1000)"
      by (simp add: literal_def)
    also have "\<dots> = Fin 1000"
      by (rule fl_eval' [where e = "9" and n = "8796093022208000"]) simp_all
    finally show ?thesis .
  qed
  have s2: "Fin (364389603734429 / 2 ^ 68) * Fin 1000 = Fin (5693587558350453 / 2 ^ 62)"
  proof -
    have "Fin (364389603734429 / 2 ^ 68) * Fin 1000 = fl (45548700466803625 / 36893488147419103232)"
      by (simp)
    also have "\<dots> = Fin (5693587558350453 / 2 ^ 62)"
      by (rule fl_eval' [where e = "- 10" and n = "5693587558350453"]) simp_all
    finally show ?thesis .
  qed
  have s3: "literal 0.001 = Fin (1152921504606847 / 2 ^ 60)"
  proof -
    have "literal 0.001 = fl (1 / 1000)"
      by (simp add: literal_def)
    also have "\<dots> = Fin (1152921504606847 / 2 ^ 60)"
      by (rule fl_eval' [where e = "- 10" and n = "4611686018427388"]) simp_all
    finally show ?thesis .
  qed
  have s4: "Fin (5693587558350453 / 2 ^ 62) / Fin (1152921504606847 / 2 ^ 60) = Fin (2780072049975807 / 2 ^ 51)"
  proof -
    have "Fin (5693587558350453 / 2 ^ 62) / Fin (1152921504606847 / 2 ^ 60) = fl (5693587558350453 / 4611686018427388)"
      by (simp)
    also have "\<dots> = Fin (2780072049975807 / 2 ^ 51)"
      by (rule fl_eval' [where e = "0" and n = "5560144099951614"]) simp_all
    finally show ?thesis .
  qed
  have s5: "rounded 10 (Fin (2780072049975807 / 2 ^ 51)) = Fin (2780072049975807 / 2 ^ 51)"
  proof -
    have "rounded 10 (Fin (2780072049975807 / 2 ^ 51)) = fl (6173 / 5000)"
      by (simp add: rounded_def round_dp_def)
    also have "\<dots> = Fin (2780072049975807 / 2 ^ 51)"
      by (rule fl_eval' [where e = "0" and n = "5560144099951614"]) simp_all
    finally show ?thesis .
  qed
  have s6: "literal 1.2346 = Fin (2780072049975807 / 2 ^ 51)"
  proof -
    have "literal 1.2346 = fl (6173 / 5000)"
      by (simp add: literal_def)
    also have "\<dots> = Fin (2780072049975807 / 2 ^ 51)"
      by (rule fl_eval' [where e = "0" and n = "5560144099951614"]) simp_all
    finally show ?thesis .
  qed
  show ?thesis
    by (simp only: s1 s2 s3 s4 s5 s6)
qed

lemma double_of_mm: "literal 1.2346 = Fin (2780072049975807 / 2 ^ 51)"
proof -
  have "literal 1.2346 = fl (6173 / 5000)"
    by (simp add: literal_def)
  also have "\<dots> = Fin (2780072049975807 / 2 ^ 51)"
    by (rule fl_eval' [where e = "0" and n = "5560144099951614"]) simp_all
  finally show ?thesis .
qed

lemma steps_lb_lb:
  "rounded 10 (Fin 9999999 * literal 0.453592 / literal 0.453592) = Fin (5368708583129089 / 2 ^ 29)"
proof -
  have s1: "literal 0.453592 = Fin (1021398381089119 / 2 ^ 51)"
  proof -
    have "literal 0.453592 = fl (56699 / 125000)"
      by (simp add: literal_def)
    also have "\<dots> = Fin (1021398381089119 / 2 ^ 51)"
      by (rule fl_eval' [where e = "- 2" and n = "8171187048712952"]) simp_all
    finally show ?thesis .
  qed
  have s2: "Fin 9999999 * Fin (1021398381089119 / 2 ^ 51) = Fin (4870406527277379 / 2 ^ 30)"
  proof -
    have "Fin 9999999 * Fin (1021398381089119 / 2 ^ 51) = fl (10213982789492808910881 / 2251799813685248)"
      by (simp)
    also have "\<dots> = Fin (4870406527277379 / 2 ^ 30)"
      by (rule fl_eval' [where e = "22" and n = "4870406527277379"]) simp_all
    finally show ?thesis .
  qed
  have s3: "Fin (4870406527277379 / 2 ^ 30) / Fin (1021398381089119 / 2 ^ 51) = Fin (5368708583129089 / 2 ^ 29)"
  proof -
    have "Fin (4870406527277379 / 2 ^ 30) / Fin (1021398381089119 / 2 ^ 51) = fl (928543889953891811328 / 92854398280829)"
      by (simp)
    also have "\<dots> = Fin (5368708583129089 / 2 ^ 29)"
      by (rule fl_eval' [where e = "23" and n = "5368708583129089"]) simp_all
    finally show ?thesis .
  qed
  have s4: "rounded 10 (Fin (5368708583129089 / 2 ^ 29)) = Fin (5368708583129089 / 2 ^ 29)"
  proof -
    have "rounded 10 (Fin (5368708583129089 / 2 ^ 29)) = fl (99999990000000019 / 10000000000)"
      by (simp add: rounded_def round_dp_def)
    also have "\<dots> = Fin (5368708583129089 / 2 ^ 29)"
      by (rule fl_eval' [where e = "23" and n = "5368708583129089"]) simp_all
    finally show ?thesis .
  qed
  show ?thesis
    by (simp only: s1 s2 s3 s4)
qed

lemma steps_lb_lb_back:
  "rounded 10 (Fin (5368708583129089 / 2 ^ 29) * literal 0.453592 / literal 0.453592) = Fin (5368708583129089 / 2 ^ 29)"
proof -
  have s1: "literal 0.453592 = Fin (1021398381089119 / 2 ^ 51)"
  proof -
    have "literal 0.453592 = fl (56699 / 125000)"
      by (simp add: literal_def)
    also have "\<dots> = Fin (1021398381089119 / 2 ^ 51)"
      by (rule fl_eval' [where e = "- 2" and n = "8171187048712952"]) simp_all
    finally show ?thesis .
  qed
  have s2: "Fin (5368708583129089 / 2 ^ 29) * Fin (1021398381089119 / 2 ^ 51) = Fin (4870406527277379 / 2 ^ 30)"
  proof -
    have "Fin (5368708583129089 / 2 ^ 29) * Fin (1021398381089119 / 2 ^ 51) = fl (5483590255347309358824790282591 / 1208925819614629174706176)"
      by (simp)
    also have "\<dots> = Fin (4870406527277379 / 2 ^ 30)"
      by (rule fl_eval' [where e = "22" and n = "4870406527277379"]) simp_all
    finally show ?thesis .
  qed
  have s3: "Fin (4870406527277379 / 2 ^ 30) / Fin (1021398381089119 / 2 ^ 51) = Fin (5368708583129089 / 2 ^ 29)"
  proof -
    have "Fin (4870406527277379 / 2 ^ 30) / Fin (1021398381089119 / 2 ^ 51) = fl (928543889953891811328 / 92854398280829)"
      by (simp)
    also have "\<dots> = Fin (5368708583129089 / 2 ^ 29)"
      by (rule fl_eval' [where e = "23" and n = "5368708583129089"]) simp_all
    finally show ?thesis .
  qed
  have s4: "rounded 10 (Fin (5368708583129089 / 2 ^ 29)) = Fin (5368708583129089 / 2 ^ 29)"
  proof -
    have "rounded 10 (Fin (5368708583129089 / 2 ^ 29)) = fl (99999990000000019 / 10000000000)"
      by (simp add: rounded_def round_dp_def)
    also have "\<dots> = Fin (5368708583129089 / 2 ^ 29)"
      by (rule fl_eval' [where e = "23" and n = "5368708583129089"]) simp_all
    finally show ?thesis .
  qed
  show ?thesis
    by (simp only: s1 s2 s3 s4)
qed

text \<open>
  C4 says that converting from \<open>A\<close> to \<open>B\<close> and the result back yields the value again
  within \<open>10^-9\<close>. The intermediate value is rounded to 10 decimal places, and scaling it
  back by the quotient of the factors magnifies that rounding: of 1.23456789 mm the
  ten decimal places in kilometres keep 0.0000012346, which comes back as 1.2346 mm,
  \<open>3.2 * 10^-5\<close> off the double that was put in.
  And the doubles of a large value lie further apart than the tolerance: 9999999 lb
  in pounds are 9999999.000000002 lb, the next double, and stay so on the way back.
\<close>

theorem round_trip_counterexample:
  "literal 1.23456789 = Fin (5559999489367579 / 2 ^ 52) \<and>
   round_trip conversionFactors Length (Number (literal 1.23456789)) ''mm'' ''km'' =
     literal 1.2346 \<and>
   \<not> within_tol (1 / 10 ^ 9)
       (round_trip conversionFactors Length (Number (literal 1.23456789)) ''mm'' ''km'')
       (5559999489367579 / 2 ^ 52) \<and>
   round_trip conversionFactors Weight (Number (Fin 9999999)) ''lb'' ''lb'' =
     Fin (9999999 + 1 / 2 ^ 29) \<and>
   \<not> within_tol (1 / 10 ^ 9)
       (round_trip conversionFactors Weight (Number (Fin 9999999)) ''lb'' ''lb'') 9999999"
proof -
  have h: "map_of (table_of conversionFactors Length) ''mm'' = Some 0.001"
    "map_of (table_of conversionFactors Length) ''km'' = Some 1000"
    "map_of (table_of conversionFactors Weight) ''lb'' = Some 0.453592"
    by (simp_all add: conversionFactors_def)
  have n: "Fin (5559999489367579 / 2 ^ 52) \<noteq> Fin 0" "Fin (5559999489367579 / 2 ^ 52) \<noteq> NaN"
    "Fin (364389603734429 / 2 ^ 68) \<noteq> Fin 0" "Fin (364389603734429 / 2 ^ 68) \<noteq> NaN"
    "Fin 9999999 \<noteq> Fin 0" "Fin 9999999 \<noteq> NaN"
    "Fin (5368708583129089 / 2 ^ 29) \<noteq> Fin 0" "Fin (5368708583129089 / 2 ^ 29) \<noteq> NaN"
    by simp_all
  have "convert conversionFactors Length (Number (Fin (5559999489367579 / 2 ^ 52))) ''mm'' ''km'' =
      rounded 10 (Fin (5559999489367579 / 2 ^ 52) * literal 0.001 / literal 1000)"
    by (rule linear_steps [OF _ _ h(1) h(2) n(1) n(2)]) simp_all
  then have f: "convert conversionFactors Length (Number (Fin (5559999489367579 / 2 ^ 52))) ''mm'' ''km'' =
      Fin (364389603734429 / 2 ^ 68)"
    by (simp only: steps_mm_km double_of_km)
  have "convert conversionFactors Length (Number (Fin (364389603734429 / 2 ^ 68))) ''km'' ''mm'' =
      rounded 10 (Fin (364389603734429 / 2 ^ 68) * literal 1000 / literal 0.001)"
    by (rule linear_steps [OF _ _ h(2) h(1) n(3) n(4)]) simp_all
  then have b: "convert conversionFactors Length (Number (Fin (364389603734429 / 2 ^ 68))) ''km'' ''mm'' =
      literal 1.2346"
    by (simp only: steps_km_mm)
  have r1: "round_trip conversionFactors Length (Number (literal 1.23456789)) ''mm'' ''km'' =
      literal 1.2346"
    by (simp only: round_trip_def double_of_input f b)
  have t1: "\<not> within_tol (1 / 10 ^ 9)
      (round_trip conversionFactors Length (Number (literal 1.23456789)) ''mm'' ''km'')
      (5559999489367579 / 2 ^ 52)"
    by (simp only: r1 double_of_mm) simp
  have "convert conversionFactors Weight (Number (Fin 9999999)) ''lb'' ''lb'' =
      rounded 10 (Fin 9999999 * literal 0.453592 / literal 0.453592)"
    by (rule linear_steps [OF _ _ h(3) h(3) n(5) n(6)]) simp_all
  then have f2: "convert conversionFactors Weight (Number (Fin 9999999)) ''lb'' ''lb'' =
      Fin (5368708583129089 / 2 ^ 29)"
    by (simp only: steps_lb_lb)
  have "convert conversionFactors Weight (Number (Fin (5368708583129089 / 2 ^ 29))) ''lb'' ''lb'' =
      rounded 10 (Fin (5368708583129089 / 2 ^ 29) * literal 0.453592 / literal 0.453592)"
    by (rule linear_steps [OF _ _ h(3) h(3) n(7) n(8)]) simp_all
  then have b2: "convert conversionFactors Weight (Number (Fin (5368708583129089 / 2 ^ 29))) ''lb'' ''lb'' =
      Fin (5368708583129089 / 2 ^ 29)"
    by (simp only: steps_lb_lb_back)
  have "round_trip conversionFactors Weight (Number (Fin 9999999)) ''lb'' ''lb'' =
      Fin (5368708583129089 / 2 ^ 29)"
    by (simp only: round_trip_def f2 b2)
  moreover have "Fin (5368708583129089 / 2 ^ 29) = Fin (9999999 + 1 / 2 ^ 29)" by simp
  ultimately have r2: "round_trip conversionFactors Weight (Number (Fin 9999999)) ''lb'' ''lb'' =
      Fin (9999999 + 1 / 2 ^ 29)"
    by (rule trans)
  have t2: "\<not> within_tol (1 / 10 ^ 9)
      (round_trip conversionFactors Weight (Number (Fin 9999999)) ''lb'' ''lb'') 9999999"
    by (simp only: r2) simp
  show ?thesis
    by (rule conjI [OF double_of_input conjI [OF r1 conjI [OF t1 conjI [OF r2 t2]]]])
qed

text \<open>
  C4, as the code has it. In each of the six linear domains, for symbols \<open>A\<close> and \<open>B\<close> of
  the table and a finite value \<open>v\<close> of magnitude at most \<open>10^15\<close>, the round trip from
  \<open>A\<close> to \<open>B\<close> and back is a finite value within \<open>5.1 * 10^-11 * (1 + q) + 10^-15 * |v|\<close>
  of \<open>v\<close>, where \<open>q\<close> is the factor of \<open>B\<close> over the factor of \<open>A\<close> (for speed the factor
  of \<open>A\<close> over the factor of \<open>B\<close>); so it is within \<open>10^-9\<close> whenever \<open>q\<close> is at most 10 and
  the magnitude of \<open>v\<close> at most 100000.
\<close>

theorem round_trip_bound:
  assumes "d \<noteq> Temperature"
    and "map_of (table_of conversionFactors d) A = Some a"
    and "map_of (table_of conversionFactors d) B = Some b"
    and "\<bar>v\<bar> \<le> 10 ^ 15"
  shows "within_tol (51 / 10 ^ 12 * (1 + (if d = Speed then a / b else b / a)) + \<bar>v\<bar> / 10 ^ 15)
           (round_trip conversionFactors d (Number (Fin v)) A B) v \<and>
         ((if d = Speed then a / b else b / a) \<le> 10 \<and> \<bar>v\<bar> \<le> 100000 \<longrightarrow>
            within_tol (1 / 10 ^ 9) (round_trip conversionFactors d (Number (Fin v)) A B) v)"
proof -
  define q where "q = (if d = Speed then a / b else b / a)"
  obtain r where r: "round_trip conversionFactors d (Number (Fin v)) A B = Fin r"
    and e: "\<bar>r - v\<bar> \<le> 51 / 10 ^ 12 * (1 + q) + \<bar>v\<bar> / 10 ^ 15"
    using round_trip_error [OF assms] unfolding q_def by blast
  have small: "\<bar>r - v\<bar> \<le> 1 / 10 ^ 9" if "q \<le> 10" "\<bar>v\<bar> \<le> 100000"
  proof -
    have f1: "51 / 10 ^ 12 * (1 + q) \<le> 51 / 10 ^ 12 * (1 + 10)"
      using that(1) by (intro mult_left_mono) simp_all
    have f2: "\<bar>v\<bar> / 10 ^ 15 \<le> 100000 / 10 ^ 15"
      using that(2) by (intro divide_right_mono) simp_all
    have "\<bar>r - v\<bar> \<le> 51 / 10 ^ 12 * (1 + 10) + 100000 / 10 ^ 15"
      by (rule order_trans [OF e add_mono [OF f1 f2]])
    also have "\<dots> \<le> 1 / 10 ^ 9" by simp
    finally show ?thesis .
  qed
  have g: "within_tol (51 / 10 ^ 12 * (1 + q) + \<bar>v\<bar> / 10 ^ 15)
      (round_trip conversionFactors d (Number (Fin v)) A B) v"
    using e by (simp only: r within_tol.simps)
  have s: "q \<le> 10 \<and> \<bar>v\<bar> \<le> 100000 \<longrightarrow>
      within_tol (1 / 10 ^ 9) (round_trip conversionFactors d (Number (Fin v)) A B) v"
    using small by (simp only: r within_tol.simps) simp
  from g s show ?thesis unfolding q_def by (rule conjI)
qed

text \<open>Seven feet in yards and back.\<close>

theorem round_trip_bound_witness:
  "Length \<noteq> Temperature \<and>
   map_of (table_of conversionFactors Length) ''foot'' = Some 0.3048 \<and>
   map_of (table_of conversionFactors Length) ''yard'' = Some 0.9144 \<and>
   \<bar>7::real\<bar> \<le> 10 ^ 15 \<and> (0.9144::real) / 0.3048 \<le> 10 \<and> \<bar>7::real\<bar> \<le> 100000 \<and>
   within_tol (1 / 10 ^ 9) (round_trip conversionFactors Length (Number (Fin 7)) ''foot'' ''yard'') 7"
proof -
  have d: "Length \<noteq> Temperature" by simp
  have h1: "map_of (table_of conversionFactors Length) ''foot'' = Some 0.3048"
    by (simp add: conversionFactors_def)
  have h2: "map_of (table_of conversionFactors Length) ''yard'' = Some 0.9144"
    by (simp add: conversionFactors_def)
  have v: "\<bar>7::real\<bar> \<le> 10 ^ 15" by simp
  have q: "(0.9144::real) / 0.3048 \<le> 10" by simp
  have w: "\<bar>7::real\<bar> \<le> 100000" by simp
  have c: "(if Length = Speed then (0.3048::real) / 0.9144 else 0.9144 / 0.3048) \<le> 10 \<and>
      \<bar>7::real\<bar> \<le> 100000"
    by simp
  have e: "within_tol (1 / 10 ^ 9)
      (round_trip conversionFactors Length (Number (Fin 7)) ''foot'' ''yard'') 7"
    by (rule round_trip_bound [OF d h1 h2 v, THEN conjunct2, THEN mp, OF c])
  show ?thesis
    by (rule conjI [OF d conjI [OF h1 conjI [OF h2 conjI [OF v conjI [OF q conjI [OF w e]]]]]])
qed

section \<open>The shape of the formatted string\<close>

text \<open>The number of digits of a positive number brackets it between two powers of
  ten, and its first digit is not zero.\<close>

lemma digits_length_bounds:
  "0 < n \<Longrightarrow> 10 ^ (length (digits n) - 1) \<le> n \<and> n < 10 ^ length (digits n)"
proof (induction n rule: digits.induct)
  case (1 n)
  show ?case
  proof (cases "n < 10")
    case True
    with 1(2) show ?thesis by (subst (1 2) digits.simps) simp
  next
    case False
    then have p: "0 < n div 10" by simp
    define L where "L = length (digits (n div 10))"
    have ih: "10 ^ (L - 1) \<le> n div 10" "n div 10 < 10 ^ L"
      using 1(1) [OF False p] by (simp_all add: L_def)
    have L: "0 < L" using digits_nonempty [of "n div 10"] by (simp add: L_def)
    have len: "length (digits n) = L + 1"
      using False by (subst digits.simps) (simp add: L_def)
    have "10 * 10 ^ (L - 1) \<le> 10 * (n div 10)" using ih(1) by simp
    moreover have "10 * 10 ^ (L - 1) = (10::nat) ^ L"
      using L by (cases L) simp_all
    ultimately have lo: "10 ^ L \<le> n" by simp
    have "n div 10 + 1 \<le> 10 ^ L" using ih(2) by simp
    then have "10 * (n div 10 + 1) \<le> 10 * 10 ^ L" by (simp only: mult_le_mono2)
    moreover have "n < 10 * (n div 10 + 1)" by simp
    ultimately have hi: "n < 10 ^ (L + 1)" by simp
    show ?thesis using lo hi by (simp add: len)
  qed
qed

lemma digits_length_eq:
  assumes "10 ^ k \<le> n" "n < 10 ^ (k + 1)"
  shows "length (digits n) = k + 1"
proof -
  have n: "0 < n" using assms(1) by (metis zero_less_numeral zero_less_power less_le_trans)
  define L where "L = length (digits n)"
  have b: "10 ^ (L - 1) \<le> n" "n < 10 ^ L"
    using digits_length_bounds [OF n] by (simp_all add: L_def)
  have "(10::nat) ^ (L - 1) < 10 ^ (k + 1)" using b(1) assms(2) by (rule le_less_trans)
  then have "L - 1 < k + 1" by (simp only: power_strict_increasing_iff)
  moreover have "(10::nat) ^ k < 10 ^ L" using assms(1) b(2) by (rule le_less_trans)
  then have "k < L" by (simp only: power_strict_increasing_iff)
  ultimately show ?thesis by (simp add: L_def)
qed

lemma digits_hd_nonzero: "0 < n \<Longrightarrow> hd (digits n) \<noteq> CHR ''0''"
proof (induction n rule: digits.induct)
  case (1 n)
  show ?case
  proof (cases "n < 10")
    case True
    have "digit_char n \<noteq> CHR ''0''"
    proof
      assume "digit_char n = CHR ''0''"
      then have "digit_val (digit_char n) = digit_val (CHR ''0'')" by simp
      with True 1(2) show False by (simp add: digit_val_digit_char) (simp add: digit_val_def)
    qed
    with True show ?thesis
      by (subst digits.simps) simp
  next
    case False
    then have p: "0 < n div 10" by simp
    have "hd (digits n) = hd (digits (n div 10))"
      using False digits_nonempty [of "n div 10"] by (subst digits.simps) simp
    with 1(1) [OF False p] show ?thesis by simp
  qed
qed

lemma pow10_le_real: "10 ^ k \<le> (n::nat) \<Longrightarrow> (10::real) ^ k \<le> real n"
proof -
  assume "10 ^ k \<le> n"
  then have "real (10 ^ k) \<le> real n" by (simp only: of_nat_le_iff)
  then show ?thesis by simp
qed

lemma real_succ_le_pow10: "(n::nat) < 10 ^ k \<Longrightarrow> real n + 1 \<le> 10 ^ k"
proof -
  assume "n < 10 ^ k"
  then have "n + 1 \<le> 10 ^ k" by simp
  then have "real (n + 1) \<le> real (10 ^ k)" by (simp only: of_nat_le_iff)
  then show ?thesis by simp
qed

lemma scale10_powi: "scale10 x k = x * 10 powi k"
proof (cases "0 \<le> k")
  case True
  then show ?thesis by (simp only: scale10_def power_int_def if_True)
next
  case False
  then have "(10::real) powi k = inverse 10 ^ nat (- k)"
    by (simp only: power_int_def if_False)
  also have "\<dots> = inverse (10 ^ nat (- k))" by (rule power_inverse)
  finally have "x * 10 powi k = x / 10 ^ nat (- k)" by (simp only: divide_inverse)
  with False show ?thesis by (simp only: scale10_def if_False)
qed

lemma floor_log10_bounds:
  assumes "0 < a"
  shows "10 powi (floor_log10 a) \<le> a" and "a < 10 powi (floor_log10 a + 1)"
proof -
  have "10 powi (floor_log10 a) \<le> a \<and> a < 10 powi (floor_log10 a + 1)"
  proof (cases "1 \<le> a")
    case True
    define N where "N = nat \<lfloor>a\<rfloor>"
    define L where "L = length (digits N)"
    have N: "0 < N" using True by (simp add: N_def)
    have b: "10 ^ (L - 1) \<le> N" "N < 10 ^ L"
      using digits_length_bounds [OF N] by (simp_all add: L_def)
    have L: "0 < L" using digits_nonempty [of N] by (simp add: L_def)
    have "floor_log10 a = int L - 1"
      using True by (simp add: floor_log10_def N_def L_def)
    also have "\<dots> = int (L - 1)" using L by simp
    finally have e: "floor_log10 a = int (L - 1)" .
    have Na: "real N \<le> a" "a < real N + 1"
      using True by (simp_all add: N_def)
    have lo: "10 ^ (L - 1) \<le> a"
      using pow10_le_real [OF b(1)] Na(1) by linarith
    have hi: "a < 10 ^ L"
      using real_succ_le_pow10 [OF b(2)] Na(2) by linarith
    have i: "int (L - 1) + 1 = int L" using L by simp
    have "(10::real) powi (int (L - 1) + 1) = 10 ^ L" by (simp only: i power_int_of_nat)
    with lo hi show ?thesis by (simp add: e)
  next
    case False
    define y where "y = 1 / a"
    define M where "M = nat \<lceil>y\<rceil> - 1"
    define L where "L = length (digits M)"
    have y: "1 < y" using False assms by (simp add: y_def)
    then have c: "2 \<le> \<lceil>y\<rceil>" by linarith
    then have M: "0 < M" by (simp add: M_def)
    have b: "10 ^ (L - 1) \<le> M" "M < 10 ^ L"
      using digits_length_bounds [OF M] by (simp_all add: L_def)
    have L: "0 < L" using digits_nonempty [of M] by (simp add: L_def)
    have e: "floor_log10 a = - int L"
      using False by (simp add: floor_log10_def M_def L_def y_def)
    have My: "real M < y" "y \<le> real M + 1"
      using c by (simp_all add: M_def) linarith+
    have yhi: "y \<le> 10 ^ L"
      using real_succ_le_pow10 [OF b(2)] My(2) by linarith
    have ylo: "10 ^ (L - 1) < y"
      using pow10_le_real [OF b(1)] My(1) by linarith
    have a: "a = 1 / y" using assms by (simp add: y_def)
    have "1 / 10 ^ L \<le> 1 / y"
      using yhi y by (intro divide_left_mono) simp_all
    moreover have "(10::real) powi (- int L) = 1 / 10 ^ L"
      by (simp only: power_int_minus power_int_of_nat inverse_eq_divide)
    ultimately have lo: "10 powi (- int L) \<le> a"
      by (simp only: a)
    have "1 / y < 1 / 10 ^ (L - 1)"
      using ylo y by (intro divide_strict_left_mono) simp_all
    then have u: "a < 1 / 10 ^ (L - 1)" by (simp only: a)
    have i: "- int L + 1 = - int (L - 1)" using L by simp
    have "(10::real) powi (- int L + 1) = 10 powi (- int (L - 1))" by (simp only: i)
    also have "\<dots> = 1 / 10 ^ (L - 1)"
      by (simp only: power_int_minus power_int_of_nat inverse_eq_divide)
    finally have "(10::real) powi (- int L + 1) = 1 / 10 ^ (L - 1)" .
    with u have hi: "a < 10 powi (- int L + 1)" by (simp only:)
    from lo hi show ?thesis by (simp add: e)
  qed
  then show "10 powi (floor_log10 a) \<le> a" and "a < 10 powi (floor_log10 a + 1)"
    by simp_all
qed

lemma exponent_and_digits_range:
  assumes "0 < a"
  shows "10 ^ f \<le> snd (exponent_and_digits f a) \<and> snd (exponent_and_digits f a) < 10 ^ (f + 1)"
proof -
  define e where "e = floor_log10 a"
  define y where "y = scale10 a (int f - e)"
  define n where "n = nat \<lfloor>y + 1 / 2\<rfloor>"
  have p: "(0::real) < 10 powi e" by simp
  have yv: "y = a * 10 ^ f / 10 powi e"
    by (simp add: y_def scale10_powi power_int_diff)
  have "10 powi e \<le> a" "a < 10 powi e * 10"
    using floor_log10_bounds [OF assms] by (simp_all add: e_def power_int_add)
  then have q: "1 \<le> a / 10 powi e" "a / 10 powi e < 10"
    using p by (simp_all add: field_simps)
  have ylo: "10 ^ f \<le> y"
    using mult_left_mono [OF q(1), of "10 ^ f"] by (simp add: yv mult.commute)
  have yhi: "y < 10 ^ (f + 1)"
    using mult_strict_left_mono [OF q(2), of "10 ^ f"] by (simp add: yv mult.commute)
  have "real (10 ^ f) \<le> y + 1 / 2" using ylo by simp
  then have "int (10 ^ f) \<le> \<lfloor>y + 1 / 2\<rfloor>" by (simp only: le_floor_iff of_int_of_nat_eq)
  then have nlo: "10 ^ f \<le> n" by (simp add: n_def le_nat_iff)
  have "y + 1 / 2 < real (10 ^ (f + 1)) + 1" using yhi by simp
  then have "\<lfloor>y + 1 / 2\<rfloor> < int (10 ^ (f + 1)) + 1"
    by (simp only: floor_less_iff of_int_add of_int_of_nat_eq of_int_1)
  then have nhi: "n \<le> 10 ^ (f + 1)" by (simp add: n_def nat_le_iff)
  have ed: "exponent_and_digits f a = (if n = 10 ^ (f + 1) then (e + 1, 10 ^ f) else (e, n))"
    unfolding exponent_and_digits_def Let_def e_def y_def n_def ..
  show ?thesis
  proof (cases "n = 10 ^ (f + 1)")
    case True
    then have "snd (exponent_and_digits f a) = 10 ^ f"
      by (simp add: ed)
    then show ?thesis by simp
  next
    case False
    then have "snd (exponent_and_digits f a) = n"
      by (simp only: ed if_False snd_conv)
    moreover have "n < 10 ^ (f + 1)" using False nhi by linarith
    ultimately show ?thesis using nlo by (simp only:)
  qed
qed

text \<open>The mantissa printed by \<^verbatim>\<open>toExponential\<close> has one digit before the point and \<open>f\<close>
  after it.\<close>

lemma is_digit_not_special:
  assumes "is_digit c"
  shows "c \<noteq> CHR ''e''" "c \<noteq> CHR ''-''" "c \<noteq> CHR ''.''" "c \<noteq> CHR '',''"
  using assms by (auto simp: is_digit_def)

lemma takeWhile_digits_until:
  assumes "\<forall>c \<in> set ds. is_digit c" "\<not> is_digit x"
  shows "takeWhile (\<lambda>c. c \<noteq> x) (ds @ x # rest) = ds"
    and "dropWhile (\<lambda>c. c \<noteq> x) (ds @ x # rest) = x # rest"
proof -
  have "\<forall>c \<in> set ds. c \<noteq> x" using assms by auto
  then show "takeWhile (\<lambda>c. c \<noteq> x) (ds @ x # rest) = ds"
    and "dropWhile (\<lambda>c. c \<noteq> x) (ds @ x # rest) = x # rest"
    by (simp_all add: takeWhile_append2 dropWhile_append2)
qed

lemma toExponential_shape:
  assumes "r \<noteq> 0" "f \<noteq> 0"
  shows "exponential_notation f (toExponential f (Fin r))"
proof -
  define n where "n = snd (exponent_and_digits f \<bar>r\<bar>)"
  define e where "e = fst (exponent_and_digits f \<bar>r\<bar>)"
  define m where "m = digits n"
  define c where "c = (if e < 0 then CHR ''-'' else CHR ''+'')"
  define es where "es = digits (nat \<bar>e\<bar>)"
  define s where "s = (if r < 0 then ''-'' else [])"
  have a: "0 < \<bar>r\<bar>" using assms(1) by simp
  have rng: "10 ^ f \<le> n" "n < 10 ^ (f + 1)"
    using exponent_and_digits_range [OF a, of f] by (simp_all add: n_def)
  have n: "0 < n" using rng(1) by (metis zero_less_numeral zero_less_power less_le_trans)
  have len: "length m = f + 1" using digits_length_eq [OF rng] by (simp add: m_def)
  then obtain d ds where m: "m = d # ds" by (cases m) auto
  have lds: "length ds = f" using len m by simp
  have md: "\<forall>x \<in> set m. is_digit x" using digits_all_digit by (simp add: m_def)
  then have d: "is_digit d" and dsd: "\<forall>x \<in> set ds. is_digit x" using m by simp_all
  have d0: "d \<noteq> CHR ''0''" using digits_hd_nonzero [OF n] m by (simp add: m_def)
  have esd: "\<forall>x \<in> set es. is_digit x" and esn: "es \<noteq> []"
    using digits_all_digit digits_nonempty by (simp_all add: es_def)
  have str: "toExponential f (Fin r) = s @ d # CHR ''.'' # ds @ CHR ''e'' # c # es"
    using assms m
    by (simp add: toExponential_def Let_def n_def [symmetric] e_def [symmetric] m_def [symmetric]
        c_def es_def s_def)
  have dm: "d \<noteq> CHR ''-''" "d \<noteq> CHR ''e''" using is_digit_not_special [OF d] by simp_all
  have strip: "strip_minus (toExponential f (Fin r)) = (d # CHR ''.'' # ds) @ CHR ''e'' # c # es"
    using dm by (simp add: str s_def strip_minus_def)
  have ne: "\<not> is_digit (CHR ''e'')" by (simp add: is_digit_def)
  have tw: "takeWhile (\<lambda>c. c \<noteq> CHR ''e'') (ds @ CHR ''e'' # c # es) = ds"
    and dw: "dropWhile (\<lambda>c. c \<noteq> CHR ''e'') (ds @ CHR ''e'' # c # es) = CHR ''e'' # c # es"
    using takeWhile_digits_until [OF dsd ne] by simp_all
  have c: "c = CHR ''+'' \<or> c = CHR ''-''" by (simp add: c_def)
  show ?thesis
    unfolding exponential_notation_def strip Let_def
    using dm d d0 lds dsd esd esn c tw dw
    by (simp add: list_all_iff)
qed

text \<open>The string printed by \<^verbatim>\<open>toLocaleString\<close> is grouped, and its fraction has at most
  the maximal number of digits and does not end in a zero.\<close>

lemma takeWhile_until:
  assumes "\<forall>c \<in> set g. c \<noteq> x"
  shows "takeWhile (\<lambda>c. c \<noteq> x) (g @ x # rest) = g"
    and "dropWhile (\<lambda>c. c \<noteq> x) (g @ x # rest) = x # rest"
    and "takeWhile (\<lambda>c. c \<noteq> x) g = g"
    and "dropWhile (\<lambda>c. c \<noteq> x) g = []"
  using assms by (simp_all add: takeWhile_append2 dropWhile_append2)

lemma group_rev_grouped:
  "xs \<noteq> [] \<Longrightarrow> \<forall>c \<in> set xs. is_digit c \<Longrightarrow> grouped_rev (group_rev xs)"
  by (induction xs rule: group_rev.induct) (simp_all add: is_digit_not_special)

lemma group_rev_chars: "set (group_rev xs) \<subseteq> insert (CHR '','') (set xs)"
  by (induction xs rule: group_rev.induct) auto

lemma group_rev_nonempty: "xs \<noteq> [] \<Longrightarrow> group_rev xs \<noteq> []"
  by (induction xs rule: group_rev.induct) simp_all

lemma group_thousands_props:
  assumes "ip \<noteq> []" "\<forall>c \<in> set ip. is_digit c"
  shows "grouped_rev (rev (group_thousands ip))"
    and "group_thousands ip \<noteq> []"
    and "\<forall>c \<in> set (group_thousands ip). c \<noteq> CHR ''.'' \<and> c \<noteq> CHR ''-''"
proof -
  have r: "rev ip \<noteq> []" "\<forall>c \<in> set (rev ip). is_digit c" using assms by simp_all
  show "grouped_rev (rev (group_thousands ip))"
    using group_rev_grouped [OF r] by (simp add: group_thousands_def)
  show "group_thousands ip \<noteq> []"
    using group_rev_nonempty [OF r(1)] by (simp add: group_thousands_def)
  show "\<forall>c \<in> set (group_thousands ip). c \<noteq> CHR ''.'' \<and> c \<noteq> CHR ''-''"
  proof
    fix c assume "c \<in> set (group_thousands ip)"
    then have "c \<in> insert (CHR '','') (set (rev ip))"
      using group_rev_chars [of "rev ip"] by (auto simp: group_thousands_def)
    then have "c = CHR '','' \<or> is_digit c" using r(2) by auto
    then show "c \<noteq> CHR ''.'' \<and> c \<noteq> CHR ''-''"
      using is_digit_not_special [of c] by auto
  qed
qed

lemma trim_zeros_props:
  shows "set (trim_zeros 0 fp) \<subseteq> set fp"
    and "length (trim_zeros 0 fp) \<le> length fp"
    and "trim_zeros 0 fp \<noteq> [] \<Longrightarrow> last (trim_zeros 0 fp) \<noteq> CHR ''0''"
proof -
  define t where "t = dropWhile (\<lambda>c. c = CHR ''0'') (rev fp)"
  have tz: "trim_zeros 0 fp = rev t" by (simp add: trim_zeros_def t_def)
  have "set t \<subseteq> set (rev fp)" unfolding t_def by (rule set_dropWhileD [THEN subsetI])
  then show "set (trim_zeros 0 fp) \<subseteq> set fp" by (simp add: tz)
  have "length t \<le> length (rev fp)" unfolding t_def by (rule length_dropWhile_le)
  then show "length (trim_zeros 0 fp) \<le> length fp" by (simp add: tz)
  show "last (trim_zeros 0 fp) \<noteq> CHR ''0''" if "trim_zeros 0 fp \<noteq> []"
  proof -
    have "t \<noteq> []" using that by (simp add: tz)
    then have "hd t \<noteq> CHR ''0''" using hd_dropWhile [of "\<lambda>c. c = CHR ''0''" "rev fp"]
      by (simp add: t_def)
    then show ?thesis using \<open>t \<noteq> []\<close> by (simp add: tz last_rev)
  qed
qed

lemma digits_length_le:
  assumes "n < 10 ^ k" "0 < k"
  shows "length (digits n) \<le> k"
proof (cases "n = 0")
  case True
  then show ?thesis using assms(2) by (subst digits.simps) simp
next
  case False
  then have n: "0 < n" by simp
  have "(10::nat) ^ (length (digits n) - 1) < 10 ^ k"
    using digits_length_bounds [OF n] assms(1) by (meson le_less_trans)
  then have "length (digits n) - 1 < k" by (simp only: power_strict_increasing_iff)
  then show ?thesis by simp
qed

lemma toLocaleString_shape: "fixed_notation mx (toLocaleString mx 0 (Fin r))"
proof -
  define n where "n = nat \<lfloor>\<bar>r\<bar> * 10 ^ mx + 1 / 2\<rfloor>"
  define g where "g = group_thousands (digits (n div 10 ^ mx))"
  define pad where "pad = (if mx = 0 then [] else zero_pad mx (digits (n mod 10 ^ mx)))"
  define fp where "fp = trim_zeros 0 pad"
  define s where "s = (if r < 0 then ''-'' else [])"
  define fr where "fr = (if fp = [] then [] else CHR ''.'' # fp)"
  have str: "toLocaleString mx 0 (Fin r) = s @ g @ fr"
    by (simp add: toLocaleString_def Let_def n_def g_def pad_def fp_def s_def fr_def)
  have g: "grouped_rev (rev g)" "g \<noteq> []" "\<forall>c \<in> set g. c \<noteq> CHR ''.'' \<and> c \<noteq> CHR ''-''"
    using group_thousands_props [OF digits_nonempty digits_all_digit, of "n div 10 ^ mx"]
    by (simp_all add: g_def)
  have padd: "\<forall>c \<in> set pad. is_digit c"
    using zero_pad_props(1) [OF digits_all_digit] by (simp add: pad_def)
  have padl: "length pad \<le> mx"
  proof (cases "mx = 0")
    case True
    then show ?thesis by (simp add: pad_def)
  next
    case False
    then have "length (digits (n mod 10 ^ mx)) \<le> mx"
      by (intro digits_length_le) simp_all
    then show ?thesis using False by (simp add: pad_def zero_pad_def)
  qed
  have fpd: "\<forall>c \<in> set fp. is_digit c"
    using trim_zeros_props(1) [of pad] padd by (auto simp: fp_def)
  have fpl: "length fp \<le> mx"
    using trim_zeros_props(2) [of pad] padl by (simp add: fp_def)
  have fpz: "fp \<noteq> [] \<Longrightarrow> last fp \<noteq> CHR ''0''"
    using trim_zeros_props(3) [of pad] by (simp add: fp_def)
  have hdg: "hd g \<noteq> CHR ''-''" using g(2,3) by (cases g) simp_all
  have strip: "strip_minus (toLocaleString mx 0 (Fin r)) = g @ fr"
    using g(2) hdg by (cases g) (simp_all add: str s_def strip_minus_def)
  have gd: "\<forall>c \<in> set g. c \<noteq> CHR ''.''" using g(3) by simp
  show ?thesis
  proof (cases "fp = []")
    case True
    then have "fr = []" by (simp add: fr_def)
    then show ?thesis
      unfolding fixed_notation_def strip Let_def
      using g(1) by (simp add: takeWhile_until(3,4) [OF gd])
  next
    case False
    then have "fr = CHR ''.'' # fp" by (simp add: fr_def)
    then show ?thesis
      unfolding fixed_notation_def strip Let_def
      using g(1) False fpd fpl fpz
      by (simp add: list_all_iff takeWhile_until(1,2) [OF gd])
  qed
qed

section \<open>Formatting\<close>

text \<open>The lower threshold of \<^verbatim>\<open>formatNumber\<close> as a double: it lies above the decimal
  0.0001 and the double before it lies below, so that a double is below the one
  exactly when it is below the other.\<close>

lemma threshold_double:
  "literal 0.0001 = Fin (7378697629483821 / 2 ^ 66) \<and>
   7378697629483820 / 2 ^ 66 < (0.0001::real) \<and> (0.0001::real) < 7378697629483821 / 2 ^ 66"
proof -
  have "literal 0.0001 = Fin (7378697629483821 / 2 ^ 66)"
    unfolding literal_def
    by (rule fl_eval' [where e = "- 14" and n = "7378697629483821"]) simp_all
  then show ?thesis by simp
qed

text \<open>
  C7 says that \<^verbatim>\<open>formatNumber\<close> prints every number of absolute value above 1,000,000
  in exponential notation with 6 digits after the point, and every number outside
  the two ranges in fixed notation. An infinity is a Number above 1,000,000, and
  \<^verbatim>\<open>toExponential\<close> prints it as its name; \<^verbatim>\<open>NaN\<close> fails all three tests and
  \<^verbatim>\<open>toLocaleString\<close> prints it as its name.
\<close>

theorem formatNumber_infinite_counterexample:
  "Math_abs Infinity > Fin 1000000 \<and> formatNumber Infinity = ''Infinity'' \<and>
   \<not> exponential_notation 6 (formatNumber Infinity) \<and>
   formatNumber NaN = ''NaN'' \<and> \<not> fixed_notation 6 (formatNumber NaN)"
  by (simp add: formatNumber_def toExponential_def toLocaleString_def exponential_notation_def
      fixed_notation_def strip_minus_def is_digit_def)

text \<open>
  C7, as the code has it. \<^verbatim>\<open>formatNumber\<close> maps \<open>0\<close> to \<^verbatim>\<open>"0"\<close>; a finite number other
  than \<open>0\<close> whose absolute value is strictly below 0.0001 or strictly above 1,000,000
  to exponential notation with 6 digits after the point of the mantissa; every other
  finite number to fixed notation with thousands grouping, at most 6 fraction digits
  and no zero at the end of the fraction; and the infinities and \<^verbatim>\<open>NaN\<close> to their
  names.
\<close>

theorem formatNumber_cases:
  "(r = 0 \<longrightarrow> formatNumber (Fin r) = ''0'') \<and>
   (r \<noteq> 0 \<and> (\<bar>r\<bar> < 0.0001 \<or> \<bar>r\<bar> > 1000000) \<longrightarrow>
      formatNumber (Fin r) = toExponential 6 (Fin r) \<and>
      exponential_notation 6 (formatNumber (Fin r))) \<and>
   (r \<noteq> 0 \<and> 0.0001 \<le> \<bar>r\<bar> \<and> \<bar>r\<bar> \<le> 1000000 \<longrightarrow>
      formatNumber (Fin r) = toLocaleString 6 0 (Fin r) \<and>
      fixed_notation 6 (formatNumber (Fin r))) \<and>
   formatNumber Infinity = ''Infinity'' \<and> formatNumber MinusInfinity = ''-Infinity'' \<and>
   formatNumber NaN = ''NaN''"
proof (intro conjI impI)
  assume "r = 0"
  then show "formatNumber (Fin r) = ''0''" by (simp add: formatNumber_def)
next
  assume h: "r \<noteq> 0 \<and> (\<bar>r\<bar> < 0.0001 \<or> \<bar>r\<bar> > 1000000)"
  then show e: "formatNumber (Fin r) = toExponential 6 (Fin r)"
    by (auto simp: formatNumber_def)
  show "exponential_notation 6 (formatNumber (Fin r))"
    using h toExponential_shape [of r 6] by (simp add: e)
next
  assume h: "r \<noteq> 0 \<and> 0.0001 \<le> \<bar>r\<bar> \<and> \<bar>r\<bar> \<le> 1000000"
  then show e: "formatNumber (Fin r) = toLocaleString 6 0 (Fin r)"
    by (auto simp: formatNumber_def)
  show "fixed_notation 6 (formatNumber (Fin r))"
    using toLocaleString_shape [of 6 r] by (simp add: e)
next
  show "formatNumber Infinity = ''Infinity''"
    by (simp add: formatNumber_def toExponential_def)
next
  show "formatNumber MinusInfinity = ''-Infinity''"
    by (simp add: formatNumber_def toExponential_def)
next
  show "formatNumber NaN = ''NaN''"
    by (simp add: formatNumber_def toLocaleString_def)
qed

text \<open>The two examples of the specification: 0.00005 prints as \<^verbatim>\<open>5.000000e-5\<close> and 1234.5
  as \<^verbatim>\<open>1,234.5\<close>.\<close>

lemma digit_char_values:
  "digit_char 0 = CHR ''0''" "digit_char (Suc 0) = CHR ''1''" "digit_char 2 = CHR ''2''"
  "digit_char 3 = CHR ''3''" "digit_char 4 = CHR ''4''" "digit_char 5 = CHR ''5''"
  "digit_char 6 = CHR ''6''" "digit_char 7 = CHR ''7''" "digit_char 8 = CHR ''8''"
  "digit_char 9 = CHR ''9''"
  by code_simp+

lemma digits_examples:
  "digits 5 = ''5''" "digits 19999 = ''19999''" "digits 5000000 = ''5000000''"
  "digits 1234 = ''1234''" "digits 500000 = ''500000''"
  by ((subst digits.simps, simp add: digit_char_values)+)+

lemma formatNumber_small: "formatNumber (Fin 0.00005) = ''5.000000e-5''"
proof -
  have e: "floor_log10 (1 / 20000) = - 5"
    by (simp add: floor_log10_def digits_examples)
  have n: "exponent_and_digits 6 (1 / 20000) = (- 5, 5000000)"
    by (simp add: exponent_and_digits_def e scale10_def Let_def)
  show ?thesis
    by (simp add: formatNumber_def toExponential_def n digits_examples)
qed

lemma formatNumber_grouped: "formatNumber (Fin 1234.5) = ''1,234.5''"
proof -
  have n: "nat \<lfloor>\<bar>1234.5 :: real\<bar> * 10 ^ 6 + 1 / 2\<rfloor> = 1234500000" by simp
  show ?thesis
    by (simp add: formatNumber_def toLocaleString_def n Let_def digits_examples
        group_thousands_def trim_zeros_def zero_pad_def)
qed

theorem formatNumber_cases_witness:
  "formatNumber (Fin 0) = ''0'' \<and>
   ((0.00005::real) \<noteq> 0 \<and> (\<bar>0.00005::real\<bar> < 0.0001 \<or> \<bar>0.00005::real\<bar> > 1000000)) \<and>
   exponential_notation 6 (formatNumber (Fin 0.00005)) \<and>
   formatNumber (Fin 0.00005) = ''5.000000e-5'' \<and>
   ((1234.5::real) \<noteq> 0 \<and> 0.0001 \<le> \<bar>1234.5::real\<bar> \<and> \<bar>1234.5::real\<bar> \<le> 1000000) \<and>
   fixed_notation 6 (formatNumber (Fin 1234.5)) \<and>
   formatNumber (Fin 1234.5) = ''1,234.5''"
proof -
  have h1: "(0.00005::real) \<noteq> 0 \<and> (\<bar>0.00005::real\<bar> < 0.0001 \<or> \<bar>0.00005::real\<bar> > 1000000)"
    by simp
  have h2: "(1234.5::real) \<noteq> 0 \<and> 0.0001 \<le> \<bar>1234.5::real\<bar> \<and> \<bar>1234.5::real\<bar> \<le> 1000000"
    by simp
  note t0 = formatNumber_cases [of 0]
  note t1 = formatNumber_cases [of "0.00005"]
  note t2 = formatNumber_cases [of "1234.5"]
  have z: "formatNumber (Fin 0) = ''0''"
    by (rule t0 [THEN conjunct1, THEN mp, OF refl])
  have e1: "exponential_notation 6 (formatNumber (Fin 0.00005))"
    by (rule t1 [THEN conjunct2, THEN conjunct1, THEN mp, OF h1, THEN conjunct2])
  have e2: "fixed_notation 6 (formatNumber (Fin 1234.5))"
    by (rule t2 [THEN conjunct2, THEN conjunct2, THEN conjunct1, THEN mp, OF h2, THEN conjunct2])
  show ?thesis
    by (rule conjI [OF z conjI [OF h1 conjI [OF e1 conjI [OF formatNumber_small
          conjI [OF h2 conjI [OF e2 formatNumber_grouped]]]]]])
qed

end
